theory Spec2Isabelle
  imports Complex_Main
begin

section \<open>JavaScript numbers\<close>

text \<open>
  A JavaScript number is an IEEE 754 double. A finite double is modelled by the real
  number it denotes, next to \<open>NaN\<close> and the two infinities; every arithmetic operation
  rounds its exact result to a double. The type holds more reals than there are doubles:
  what is proved for every \<open>Fin a\<close> holds for the doubles among them. The two zeros are
  identified: the program never divides by zero (its divisors are the literal \<open>100\<close>,
  the product \<open>0.05 * 100\<close> and \<open>e - h\<close> with \<open>h < e\<close>), and no other operation it
  uses tells \<open>-0\<close> from \<open>+0\<close>.
\<close>

datatype number = NaN | PosInf | NegInf | Fin real

text \<open>Number of binary digits of a natural number.\<close>

fun bitlen_nat :: "nat \<Rightarrow> nat" where
  "bitlen_nat n = (if n = 0 then 0 else Suc (bitlen_nat (n div 2)))"

declare bitlen_nat.simps [simp del]

definition pow2 :: "int \<Rightarrow> real" where
  "pow2 k = (if 0 \<le> k then 2 ^ nat k else 1 / 2 ^ nat (- k))"

text \<open>The binary exponent of a positive real: \<open>pow2 (expo x) \<le> x < pow2 (expo x + 1)\<close>.\<close>

definition expo :: "real \<Rightarrow> int" where
  "expo x = (if 1 \<le> x then int (bitlen_nat (nat \<lfloor>x\<rfloor>)) - 1
             else let f = bitlen_nat (nat \<lfloor>1 / x\<rfloor>) - 1
                  in if x * 2 ^ f = 1 then - int f else - int f - 1)"

definition round_half_even :: "real \<Rightarrow> int" where
  "round_half_even t =
     (let f = \<lfloor>t\<rfloor>; d = t - of_int f
      in if d < 1 / 2 then f
         else if 1 / 2 < d then f + 1
         else if even f then f else f + 1)"

text \<open>
  Rounding of an exact result to the nearest double, ties to the even significand:
  53 significant bits, so the doubles near \<open>x\<close> are the multiples of
  \<open>pow2 (ulp_exp x)\<close>; the spacing is never below \<open>2^-1074\<close> (subnormals), and
  a result of magnitude \<open>2^1024\<close> or more is an infinity.
\<close>

definition ulp_exp :: "real \<Rightarrow> int" where
  "ulp_exp x = max (expo \<bar>x\<bar> - 52) (- 1074)"

definition round_to :: "int \<Rightarrow> real \<Rightarrow> real" where
  "round_to k x = of_int (round_half_even (x / pow2 k)) * pow2 k"

definition fl :: "real \<Rightarrow> number" where
  "fl x =
     (if x = 0 then Fin 0
      else let r = round_to (ulp_exp x) x
           in if 2 ^ 1024 \<le> r then PosInf
              else if r \<le> - (2 ^ 1024) then NegInf
              else Fin r)"

fun num_neg :: "number \<Rightarrow> number" where
  "num_neg NaN = NaN"
| "num_neg PosInf = NegInf"
| "num_neg NegInf = PosInf"
| "num_neg (Fin a) = Fin (- a)"

text \<open>The operators \<open>+\<close>, \<open>-\<close>, \<open>*\<close> and \<open>/\<close> on numbers.\<close>

fun num_add :: "number \<Rightarrow> number \<Rightarrow> number" where
  "num_add NaN _ = NaN"
| "num_add _ NaN = NaN"
| "num_add PosInf NegInf = NaN"
| "num_add NegInf PosInf = NaN"
| "num_add PosInf _ = PosInf"
| "num_add _ PosInf = PosInf"
| "num_add NegInf _ = NegInf"
| "num_add _ NegInf = NegInf"
| "num_add (Fin a) (Fin b) = fl (a + b)"

definition num_sub :: "number \<Rightarrow> number \<Rightarrow> number" where
  "num_sub a b = num_add a (num_neg b)"

text \<open>The sign of an infinite or non-zero finite number (\<open>True\<close> for negative).\<close>

fun num_negative :: "number \<Rightarrow> bool" where
  "num_negative NegInf = True"
| "num_negative (Fin a) = (a < 0)"
| "num_negative _ = False"

definition signed_inf :: "bool \<Rightarrow> number" where
  "signed_inf neg = (if neg then NegInf else PosInf)"

fun num_is_inf :: "number \<Rightarrow> bool" where
  "num_is_inf PosInf = True"
| "num_is_inf NegInf = True"
| "num_is_inf _ = False"

fun num_mul :: "number \<Rightarrow> number \<Rightarrow> number" where
  "num_mul NaN _ = NaN"
| "num_mul _ NaN = NaN"
| "num_mul (Fin a) (Fin b) = fl (a * b)"
| "num_mul a b =
     (if a = Fin 0 \<or> b = Fin 0 then NaN
      else signed_inf (num_negative a \<noteq> num_negative b))"

text \<open>A zero divisor is read as \<open>+0\<close>; the program has none.\<close>

fun num_div :: "number \<Rightarrow> number \<Rightarrow> number" where
  "num_div NaN _ = NaN"
| "num_div _ NaN = NaN"
| "num_div (Fin a) (Fin b) =
     (if b = 0 then (if a = 0 then NaN else signed_inf (a < 0)) else fl (a / b))"
| "num_div (Fin a) _ = Fin 0"
| "num_div a b =
     (if num_is_inf b then NaN else signed_inf (num_negative a \<noteq> num_negative b))"

text \<open>\<open>Math.floor\<close> on a number; the floor of a double is a double.\<close>

fun num_floor :: "number \<Rightarrow> number" where
  "num_floor (Fin a) = Fin (of_int \<lfloor>a\<rfloor>)"
| "num_floor n = n"

text \<open>The comparisons \<open><\<close>, \<open><=\<close> and \<open>></\<close> on numbers: false when an operand is \<open>NaN\<close>.\<close>

fun num_lt :: "number \<Rightarrow> number \<Rightarrow> bool" where
  "num_lt NaN _ = False"
| "num_lt _ NaN = False"
| "num_lt (Fin a) (Fin b) = (a < b)"
| "num_lt PosInf _ = False"
| "num_lt _ NegInf = False"
| "num_lt NegInf _ = True"
| "num_lt _ PosInf = True"

definition num_gt :: "number \<Rightarrow> number \<Rightarrow> bool" where
  "num_gt a b = num_lt b a"

definition num_le :: "number \<Rightarrow> number \<Rightarrow> bool" where
  "num_le a b = (a \<noteq> NaN \<and> b \<noteq> NaN \<and> \<not> num_lt b a)"

section \<open>Values in numeric positions\<close>

text \<open>
  The values that the validators read as numbers: \<open>undefined\<close>, \<open>null\<close>, booleans and
  numbers, with the conversion \<open>ToNumber\<close> that \<open>isNaN\<close>, \<open>Math.floor\<close>, the
  comparisons and the arithmetic operators apply to them. Strings and objects in a
  numeric position (where \<open>+\<close> would concatenate) are excluded by this type.
\<close>

datatype jsval = JUndefined | JNull | JBool bool | JNum number

fun toNumber :: "jsval \<Rightarrow> number" where
  "toNumber JUndefined = NaN"
| "toNumber JNull = Fin 0"
| "toNumber (JBool b) = Fin (if b then 1 else 0)"
| "toNumber (JNum n) = n"

definition isNaN :: "jsval \<Rightarrow> bool" where
  "isNaN v = (toNumber v = NaN)"

definition Math_floor :: "jsval \<Rightarrow> number" where
  "Math_floor v = num_floor (toNumber v)"


text \<open>A reference that may be \<open>undefined\<close> or \<open>null\<close> instead of an object.\<close>

datatype 'a ref = Undefined | Null | Obj 'a

section \<open>Bet admission\<close>

datatype error =
    SomethingWrong        \<comment> \<open>Something went wrong. Please try again in a few seconds.\<close>
  | InvalidAmount         \<comment> \<open>You've entered an invalid bet amount.\<close>
  | InvalidMultiplier     \<comment> \<open>Your entered bet multiplier is invalid.\<close>
  | MinAmount             \<comment> \<open>You can only bet a min amount of ... per game.\<close>
  | InsufficientBalance   \<comment> \<open>You don't have enough balance for this action.\<close>
  | MaxAmount             \<comment> \<open>You can only bet a total max amount of ... per game.\<close>
  | MaxProfit             \<comment> \<open>You can only have a total max win amount of ... per game.\<close>
  | TypeError             \<comment> \<open>a property read on undefined or null\<close>
  | SyntaxError           \<comment> \<open>JSON.parse of a text that is not JSON\<close>
  | DbError               \<comment> \<open>a rejected database operation\<close>

record bet_data =
  amount :: jsval
  multiplier :: jsval

record roll_bet = bet_data +
  bet_user_id :: string   \<comment> \<open>bet.user._id.toString()\<close>

record user =
  user_id :: string       \<comment> \<open>user._id.toString()\<close>
  balance :: jsval

record user_stats =
  bet :: number
  winnings :: number

text \<open>
  The process environment: each field is the number that the variable of that name
  converts to when the code multiplies it by 1000 (\<open>NaN\<close> when it is unset).
\<close>

record env =
  ROLL_MIN_AMOUNT :: number
  ROLL_MAX_AMOUNT :: number
  ROLL_MAX_PROFIT :: number

definition rollCheckSendBetData :: "env \<Rightarrow> bet_data ref \<Rightarrow> error + unit" where
  "rollCheckSendBetData ev data =
     (case data of
        Undefined \<Rightarrow> Inl SomethingWrong
      | Null \<Rightarrow> Inl SomethingWrong
      | Obj d \<Rightarrow>
          if amount d = JUndefined \<or> amount d = JNull \<or> isNaN (amount d)
             \<or> num_le (Math_floor (amount d)) (Fin 0)
          then Inl InvalidAmount
          else if multiplier d = JUndefined \<or> multiplier d = JNull \<or> isNaN (multiplier d)
             \<or> num_le (Math_floor (multiplier d)) (Fin 100)
          then Inl InvalidMultiplier
          else if num_lt (Math_floor (amount d))
                         (num_floor (num_mul (ROLL_MIN_AMOUNT ev) (Fin 1000)))
          then Inl MinAmount
          else Inr ())"

definition rollCheckSendBetUser ::
  "env \<Rightarrow> bet_data ref \<Rightarrow> user ref \<Rightarrow> user_stats \<Rightarrow> error + unit" where
  "rollCheckSendBetUser ev data usr userStats =
     (if data = Undefined \<or> usr = Undefined then Inl SomethingWrong
      else case usr of
        Obj u \<Rightarrow>
          (case data of
             Obj d \<Rightarrow>
               if num_lt (toNumber (balance u)) (Math_floor (amount d))
               then Inl InsufficientBalance
               else if num_gt (num_floor (num_add (toNumber (amount d)) (bet userStats)))
                              (num_floor (num_mul (ROLL_MAX_AMOUNT ev) (Fin 1000)))
               then Inl MaxAmount
               else if num_gt
                         (num_floor
                            (num_add
                               (num_mul (toNumber (amount d))
                                        (num_div (toNumber (multiplier d)) (Fin 100)))
                               (winnings userStats)))
                         (num_floor (num_mul (ROLL_MAX_PROFIT ev) (Fin 1000)))
               then Inl MaxProfit
               else Inr ()
           | _ \<Rightarrow> Inl TypeError)
      | _ \<Rightarrow> Inl TypeError)"

text \<open>One round of the loop of \<open>rollGetUserGameStats\<close>.\<close>

definition stats_step :: "user \<Rightarrow> user_stats \<Rightarrow> roll_bet \<Rightarrow> user_stats" where
  "stats_step u stats b =
     (if bet_user_id b = user_id u
      then \<lparr> bet = num_floor (num_add (bet stats) (toNumber (amount b))),
             winnings = num_floor
               (num_add (winnings stats)
                        (num_mul (toNumber (amount b))
                                 (num_div (toNumber (multiplier b)) (Fin 100)))) \<rparr>
      else stats)"

definition rollGetUserGameStats :: "user \<Rightarrow> roll_bet list \<Rightarrow> user_stats" where
  "rollGetUserGameStats u rollBets = foldl (stats_step u) \<lparr> bet = Fin 0, winnings = Fin 0 \<rparr> rollBets"

section \<open>The outcome of a round\<close>

text \<open>
  Strings are lists of code units below 256. \<open>parseInt(s, 16)\<close>: leading white space
  is skipped, then a sign, then a prefix \<open>0x\<close> or \<open>0X\<close>; the longest run of
  hexadecimal digits that follows is the value, and \<open>NaN\<close> results when there is none.
\<close>

definition is_ws :: "char \<Rightarrow> bool" where
  "is_ws c = (of_char c \<in> {9, 10, 11, 12, 13, 32, 160 :: nat})"

definition hex_digit :: "char \<Rightarrow> nat option" where
  "hex_digit c =
     (let n = of_char c :: nat
      in if 48 \<le> n \<and> n \<le> 57 then Some (n - 48)
         else if 97 \<le> n \<and> n \<le> 102 then Some (n - 87)
         else if 65 \<le> n \<and> n \<le> 70 then Some (n - 55)
         else None)"

fun parse_digits :: "nat option \<Rightarrow> string \<Rightarrow> nat option" where
  "parse_digits acc [] = acc"
| "parse_digits acc (c # cs) =
     (case hex_digit c of
        None \<Rightarrow> acc
      | Some d \<Rightarrow> parse_digits (Some (16 * (case acc of None \<Rightarrow> 0 | Some a \<Rightarrow> a) + d)) cs)"

definition parseInt16 :: "string \<Rightarrow> number" where
  "parseInt16 s =
     (let s1 = dropWhile is_ws s;
          neg = (case s1 of c # _ \<Rightarrow> c = CHR ''-'' | [] \<Rightarrow> False);
          s2 = (case s1 of
                  c # r \<Rightarrow> if c = CHR ''-'' \<or> c = CHR ''+'' then r else s1
                | [] \<Rightarrow> s1);
          s3 = (case s2 of
                  a # b # r \<Rightarrow>
                    if a = CHR ''0'' \<and> (b = CHR ''x'' \<or> b = CHR ''X'') then r else s2
                | _ \<Rightarrow> s2)
      in case parse_digits None s3 of
           None \<Rightarrow> NaN
         | Some n \<Rightarrow> fl ((if neg then - 1 else 1) * real n))"

text \<open>\<open>s.substring(start, stop)\<close>: both indices are clamped to the string and ordered.\<close>

definition substring :: "string \<Rightarrow> int \<Rightarrow> int \<Rightarrow> string" where
  "substring s start stop =
     (let n = int (length s);
          a = max 0 (min start n);
          b = max 0 (min stop n);
          lo = min a b;
          hi = max a b
      in take (nat (hi - lo)) (drop (nat lo) s))"

text \<open>\<open>s.slice(start, stop)\<close>: a negative index counts from the end.\<close>

definition slice :: "string \<Rightarrow> int \<Rightarrow> int \<Rightarrow> string" where
  "slice s start stop =
     (let n = int (length s);
          a = (if start < 0 then max (n + start) 0 else min start n);
          b = (if stop < 0 then max (n + stop) 0 else min stop n)
      in take (nat (b - a)) (drop (nat a) s))"

text \<open>\<open>ToInt32\<close> and the shift \<open><<\<close>, which works on 32-bit two's complement.\<close>

definition trunc :: "real \<Rightarrow> int" where
  "trunc r = (if 0 \<le> r then \<lfloor>r\<rfloor> else \<lceil>r\<rceil>)"

definition wrap32 :: "int \<Rightarrow> int" where
  "wrap32 n = (n + 2 ^ 31) mod 2 ^ 32 - 2 ^ 31"

fun toInt32 :: "number \<Rightarrow> int" where
  "toInt32 (Fin r) = wrap32 (trunc r)"
| "toInt32 _ = 0"

definition shl :: "number \<Rightarrow> nat \<Rightarrow> number" where
  "shl v k = Fin (of_int (wrap32 (toInt32 v * 2 ^ (k mod 32))))"

text \<open>The remainder \<open>%\<close>: it has the sign of the dividend and is exact.\<close>

fun num_rem :: "number \<Rightarrow> number \<Rightarrow> number" where
  "num_rem (Fin a) (Fin b) = (if b = 0 then NaN else Fin (a - b * of_int (trunc (a / b))))"
| "num_rem (Fin a) PosInf = Fin a"
| "num_rem (Fin a) NegInf = Fin a"
| "num_rem _ _ = NaN"

text \<open>The body of the loop of \<open>rollIsHashDivisible\<close>, and the loop over the index.\<close>

definition fold_step :: "number \<Rightarrow> number \<Rightarrow> string \<Rightarrow> number" where
  "fold_step md val chunk = num_rem (num_add (shl val 16) (parseInt16 chunk)) md"

function hash_loop :: "string \<Rightarrow> number \<Rightarrow> int \<Rightarrow> number \<Rightarrow> number" where
  "hash_loop combined md i val =
     (if i < int (length combined)
      then hash_loop combined md (i + 4) (fold_step md val (substring combined i (i + 4)))
      else val)"
  by pat_completeness auto
termination
  by (relation "measure (\<lambda>(combined, md, i, val). nat (int (length combined) - i))") auto

declare hash_loop.simps [simp del]

definition rollIsHashDivisible :: "string \<Rightarrow> number \<Rightarrow> bool" where
  "rollIsHashDivisible combined md =
     (let off = int (length combined) mod 4
      in hash_loop combined md (if 0 < off then off - 4 else 0) (Fin 0) = Fin 0)"

text \<open>
  \<open>parseInt(100 / (0.05 * 100))\<close>: the literal \<open>0.05\<close> is the double nearest to
  \<open>1/20\<close>; the quotient is the number 20, and \<open>parseInt\<close> reads its decimal text
  \<open>20\<close> back as 20.
\<close>

definition house_mod :: number where
  "house_mod = num_div (Fin 100) (num_mul (fl (5 / 100)) (Fin 100))"

definition rollGetOutcome :: "string \<Rightarrow> number" where
  "rollGetOutcome combined =
     (if rollIsHashDivisible combined house_mod then Fin 100
      else let h = parseInt16 (slice combined 0 13);
               e = Fin (2 ^ 52)
           in num_floor (num_div (num_sub (num_mul (Fin 100) e) h) (num_sub e h)))"

text \<open>
  The fold as the specification words it: the hash is cut into chunks of four
  hexadecimal digits aligned at its tail, a shorter leading chunk comes first, and each
  chunk \<open>c\<close> takes the accumulator to \<open>(acc * 2^16 + c) mod M\<close>.
\<close>

definition digit_step :: "nat \<Rightarrow> char \<Rightarrow> nat" where
  "digit_step a c = 16 * a + (case hex_digit c of Some d \<Rightarrow> d | None \<Rightarrow> 0)"

definition hex_value :: "string \<Rightarrow> nat" where
  "hex_value s = foldl digit_step 0 s"

definition is_hex :: "string \<Rightarrow> bool" where
  "is_hex s = list_all (\<lambda>c. hex_digit c \<noteq> None) s"

fun chunks4 :: "string \<Rightarrow> string list" where
  "chunks4 [] = []"
| "chunks4 (c # cs) = take 4 (c # cs) # chunks4 (drop 4 (c # cs))"

definition spec_chunks :: "string \<Rightarrow> string list" where
  "spec_chunks s =
     (let r = length s mod 4
      in (if 0 < r then [take r s] else []) @ chunks4 (drop r s))"

definition spec_fold :: "nat \<Rightarrow> string \<Rightarrow> nat" where
  "spec_fold M s = foldl (\<lambda>acc c. (acc * 2 ^ 16 + hex_value c) mod M) 0 (spec_chunks s)"

section \<open>Round creation\<close>

text \<open>
  The two collections, and what one call of \<open>rollGenerateGame\<close> meets outside the
  program: which database operations reject, the two draws of \<open>crypto.randomBytes(32)\<close>
  in their order, and the identifiers the database assigns. A buffer is a list of bytes.
  The hash function SHA-256 of the \<open>crypto\<close> module is a parameter.
\<close>

type_synonym bytes = string

record roll_seed =
  seed_id :: nat
  seedServer :: string
  hash :: string
  seed_state :: string

record roll_game =
  game_id :: nat
  fair_seed :: nat
  game_state :: string

record database =
  seeds :: "roll_seed list"
  games :: "roll_game list"

record call =
  findOne_rejects :: bool
  seed_create_rejects :: bool
  game_create_rejects :: bool
  seed_update_rejects :: bool
  populate_rejects :: bool
  randomBytes1 :: bytes
  randomBytes2 :: bytes
  fresh_seed_id :: nat
  fresh_game_id :: nat

text \<open>The game returned to the caller, its seed populated with \<open>seedServer\<close> and \<open>hash\<close>.\<close>

record game_view =
  view_id :: nat
  view_state :: string
  view_seed :: "(nat \<times> string \<times> string) option"

definition hex_char :: "nat \<Rightarrow> char" where
  "hex_char n = ''0123456789abcdef'' ! (n mod 16)"

definition toHex :: "bytes \<Rightarrow> string" where
  "toHex b = concat (map (\<lambda>c. [hex_char (of_char c div 16), hex_char (of_char c mod 16)]) b)"

text \<open>\<open>RollSeed.findOne({ state: 'created' }).sort({ _id: -1 })\<close>\<close>

definition findOne_created :: "roll_seed list \<Rightarrow> roll_seed option" where
  "findOne_created ss =
     (case filter (\<lambda>s. seed_state s = ''created'') ss of
        [] \<Rightarrow> None
      | x # xs \<Rightarrow> Some (foldl (\<lambda>a b. if seed_id a < seed_id b then b else a) x xs))"

text \<open>\<open>RollSeed.findByIdAndUpdate(id, { state: 'completed' }, {})\<close>\<close>

fun findByIdAndUpdate :: "nat \<Rightarrow> roll_seed list \<Rightarrow> roll_seed list" where
  "findByIdAndUpdate i [] = []"
| "findByIdAndUpdate i (s # ss) =
     (if seed_id s = i then s\<lparr> seed_state := ''completed'' \<rparr> # ss
      else s # findByIdAndUpdate i ss)"

definition newSeed :: "(bytes \<Rightarrow> bytes) \<Rightarrow> call \<Rightarrow> roll_seed" where
  "newSeed sha256 c =
     \<lparr> seed_id = fresh_seed_id c,
       seedServer = toHex (randomBytes1 c),
       hash = toHex (sha256 (randomBytes2 c)),
       seed_state = ''created'' \<rparr>"

text \<open>
  The two operations under \<open>Promise.all\<close> are both issued; each takes effect unless it
  rejects, and the call rejects when either does.
\<close>

definition rollGenerateGame ::
  "(bytes \<Rightarrow> bytes) \<Rightarrow> call \<Rightarrow> database \<Rightarrow> (error + game_view) \<times> database" where
  "rollGenerateGame sha256 c db =
     (if findOne_rejects c then (Inl DbError, db)
      else
        case (case findOne_created (seeds db) of
                Some s \<Rightarrow> Inr (s, db)
              | None \<Rightarrow>
                  if seed_create_rejects c then Inl DbError
                  else Inr (newSeed sha256 c,
                            db\<lparr> seeds := seeds db @ [newSeed sha256 c] \<rparr>)) of
          Inl e \<Rightarrow> (Inl e, db)
        | Inr (seedDatabase, db1) \<Rightarrow>
            let db2 = (if game_create_rejects c then db1
                       else db1\<lparr> games := games db1 @
                              [\<lparr> game_id = fresh_game_id c,
                                 fair_seed = seed_id seedDatabase,
                                 game_state = ''created'' \<rparr>] \<rparr>);
                db3 = (if seed_update_rejects c then db2
                       else db2\<lparr> seeds := findByIdAndUpdate (seed_id seedDatabase) (seeds db2) \<rparr>)
            in if game_create_rejects c \<or> seed_update_rejects c \<or> populate_rejects c
               then (Inl DbError, db3)
               else (Inr \<lparr> view_id = fresh_game_id c,
                           view_state = ''created'',
                           view_seed =
                             map_option (\<lambda>s. (seed_id s, seedServer s, hash s))
                               (find (\<lambda>s. seed_id s = seed_id seedDatabase) (seeds db3)) \<rparr>,
                     db3))"

section \<open>View sanitizer\<close>

text \<open>
  Documents as the sanitizers see them: plain data. An object is the list of its own
  properties in enumeration order; identifiers and dates stand as the strings that
  \<open>JSON.stringify\<close> writes for them.
\<close>

datatype doc =
    DUndefined
  | DNull
  | DBool bool
  | DNum number
  | DStr string
  | DArr "doc list"
  | DObj "(string \<times> doc) list"

text \<open>
  \<open>JSON.parse(JSON.stringify(v))\<close> below the top level: a number that is not finite
  becomes \<open>null\<close>, an \<open>undefined\<close> element of an array becomes \<open>null\<close>, and a
  property whose value is \<open>undefined\<close> is left out.
\<close>

primrec clone :: "doc \<Rightarrow> doc" where
  "clone DUndefined = DUndefined"
| "clone DNull = DNull"
| "clone (DBool b) = DBool b"
| "clone (DNum n) = (case n of Fin r \<Rightarrow> DNum (Fin r) | _ \<Rightarrow> DNull)"
| "clone (DStr s) = DStr s"
| "clone (DArr xs) =
     DArr (map (\<lambda>v. case v of DUndefined \<Rightarrow> DNull | _ \<Rightarrow> v) (map clone xs))"
| "clone (DObj kvs) =
     DObj (filter (\<lambda>kv. snd kv \<noteq> DUndefined) (map (map_prod id clone) kvs))"

text \<open>At the top level \<open>JSON.stringify(undefined)\<close> is \<open>undefined\<close>, which does not parse.\<close>

definition json_roundtrip :: "doc \<Rightarrow> error + doc" where
  "json_roundtrip v = (if v = DUndefined then Inl SyntaxError else Inr (clone v))"

text \<open>
  Reading a property. The names read in this program (\<open>state\<close>, \<open>user\<close>, \<open>_id\<close>,
  \<open>rakeback\<close>, \<open>name\<close> and so on) are no properties of strings, numbers, booleans or
  arrays, where the read gives \<open>undefined\<close>; on \<open>undefined\<close> and \<open>null\<close> it throws.
\<close>

definition read_prop :: "doc \<Rightarrow> string \<Rightarrow> doc" where
  "read_prop v k =
     (case v of
        DObj kvs \<Rightarrow> (case map_of kvs k of Some x \<Rightarrow> x | None \<Rightarrow> DUndefined)
      | _ \<Rightarrow> DUndefined)"

definition nullish_doc :: "doc \<Rightarrow> bool" where
  "nullish_doc v = (v = DUndefined \<or> v = DNull)"

definition get_prop :: "doc \<Rightarrow> string \<Rightarrow> error + doc" where
  "get_prop v k = (if v = DUndefined \<or> v = DNull then Inl TypeError else Inr (read_prop v k))"

definition has_prop :: "doc \<Rightarrow> string \<Rightarrow> bool" where
  "has_prop v k = (case v of DObj kvs \<Rightarrow> k \<in> fst ` set kvs | _ \<Rightarrow> False)"

text \<open>\<open>delete v.k\<close>\<close>

definition delete_prop :: "string \<Rightarrow> doc \<Rightarrow> doc" where
  "delete_prop k v =
     (case v of DObj kvs \<Rightarrow> DObj (filter (\<lambda>kv. fst kv \<noteq> k) kvs) | _ \<Rightarrow> v)"

definition rollSanitizeGame :: "doc \<Rightarrow> error + doc" where
  "rollSanitizeGame game =
     (case json_roundtrip game of
        Inl e \<Rightarrow> Inl e
      | Inr sanitized \<Rightarrow>
          (case get_prop sanitized ''state'' of
             Inl e \<Rightarrow> Inl e
           | Inr st \<Rightarrow>
               if st \<noteq> DStr ''rolling'' \<and> st \<noteq> DStr ''completed''
               then Inr (delete_prop ''fair'' (delete_prop ''outcome'' sanitized))
               else Inr sanitized))"

text \<open>
  The object literal \<open>{ ...bet, user: { ... } }\<close>. The spread copies the own properties
  of \<open>bet\<close>; for a \<open>bet\<close> that is no object the read \<open>bet.user._id\<close> throws, so that
  what a spread of it would copy is never seen. The property \<open>user\<close> then replaces the
  copied one, or is added at the end.
\<close>

definition own_props :: "doc \<Rightarrow> (string \<times> doc) list" where
  "own_props v = (case v of DObj kvs \<Rightarrow> kvs | _ \<Rightarrow> [])"

definition set_prop :: "string \<Rightarrow> doc \<Rightarrow> (string \<times> doc) list \<Rightarrow> (string \<times> doc) list" where
  "set_prop k v kvs =
     (if k \<in> fst ` set kvs then map (\<lambda>kv. if fst kv = k then (k, v) else kv) kvs
      else kvs @ [(k, v)])"

definition public_user :: "doc \<Rightarrow> error + doc" where
  "public_user u =
     (if u = DUndefined \<or> u = DNull then Inl TypeError
      else case get_prop (read_prop u ''rakeback'') ''name'' of
             Inl e \<Rightarrow> Inl e
           | Inr rakeback_name \<Rightarrow>
               Inr (DObj [(''_id'', read_prop u ''_id''),
                          (''roblox'', read_prop u ''roblox''),
                          (''username'', read_prop u ''username''),
                          (''avatar'', read_prop u ''avatar''),
                          (''rank'', read_prop u ''rank''),
                          (''level'', read_prop u ''level''),
                          (''rakeback'', rakeback_name),
                          (''stats'', read_prop u ''stats''),
                          (''createdAt'', read_prop u ''createdAt'')]))"

definition sanitize_one :: "doc \<Rightarrow> error + doc" where
  "sanitize_one b =
     (case get_prop b ''user'' of
        Inl e \<Rightarrow> Inl e
      | Inr u \<Rightarrow>
          (case public_user u of
             Inl e \<Rightarrow> Inl e
           | Inr pu \<Rightarrow> Inr (DObj (set_prop ''user'' pu (own_props b)))))"

fun rollSanitizeBets :: "doc list \<Rightarrow> error + doc list" where
  "rollSanitizeBets [] = Inr []"
| "rollSanitizeBets (b # bets) =
     (case sanitize_one b of
        Inl e \<Rightarrow> Inl e
      | Inr x \<Rightarrow>
          (case rollSanitizeBets bets of
             Inl e \<Rightarrow> Inl e
           | Inr xs \<Rightarrow> Inr (x # xs)))"

section \<open>Properties of the rounding\<close>

lemma pow2_pos: "0 < pow2 k"
  by (simp add: pow2_def)

lemma pow2_add: "pow2 (a + b) = pow2 a * pow2 b"
proof -
  have "pow2 k = 2 powi k" for k
    by (simp add: pow2_def power_int_def power_one_over inverse_eq_divide)
  then show ?thesis by (simp add: power_int_add)
qed

lemma pow2_mono: "a \<le> b \<Longrightarrow> pow2 a \<le> pow2 b"
proof -
  assume ab: "a \<le> b"
  have "pow2 b = pow2 a * pow2 (b - a)" using pow2_add [of a "b - a"] by simp
  moreover have "1 \<le> pow2 (b - a)" using ab by (simp add: pow2_def)
  ultimately show ?thesis using pow2_pos [of a] by simp
qed

lemma pow2_strict_mono: "a < b \<Longrightarrow> pow2 a < pow2 b"
proof -
  assume ab: "a < b"
  have "pow2 b = pow2 a * pow2 (b - a)" using pow2_add [of a "b - a"] by simp
  moreover have "1 < pow2 (b - a)" using ab by (simp add: pow2_def)
  ultimately show ?thesis using pow2_pos [of a] by simp
qed

lemma bitlen_nat_bounds:
  "0 < n \<Longrightarrow> 2 ^ (bitlen_nat n - 1) \<le> n \<and> n < 2 ^ bitlen_nat n"
proof (induction n rule: bitlen_nat.induct)
  case (1 n)
  show ?case
  proof (cases "n div 2 = 0")
    case True
    with 1 have "n = 1" by (simp add: div_eq_0_iff) 
    then show ?thesis by (simp add: bitlen_nat.simps)
  next
    case False
    then have pos: "0 < n div 2" by simp
    from 1 have ih: "2 ^ (bitlen_nat (n div 2) - 1) \<le> n div 2 \<and> n div 2 < 2 ^ bitlen_nat (n div 2)"
      using pos by simp
    have bl: "bitlen_nat n = Suc (bitlen_nat (n div 2))"
      using 1(2) by (subst bitlen_nat.simps) simp
    have bp: "0 < bitlen_nat (n div 2)"
      using pos by (subst bitlen_nat.simps) simp
    then have e: "2 ^ (bitlen_nat (n div 2)) = 2 * (2::nat) ^ (bitlen_nat (n div 2) - 1)"
      by (cases "bitlen_nat (n div 2)") simp_all
    define A where "A = (2::nat) ^ (bitlen_nat (n div 2) - 1)"
    have d: "2 * (n div 2) \<le> n" "n < 2 * (n div 2) + 2" by presburger+
    have "2 * A \<le> n \<and> n < 4 * A" using ih e d unfolding A_def by linarith
    then show ?thesis using bl e by (simp add: A_def)
  qed
qed

lemma expo_bounds:
  assumes "0 < x"
  shows "pow2 (expo x) \<le> x \<and> x < pow2 (expo x + 1)"
proof (cases "1 \<le> x")
  case True
  define n where "n = nat \<lfloor>x\<rfloor>"
  have npos: "0 < n" using True by (simp add: n_def)
  have nx: "real n \<le> x" "x < real n + 1"
    using True by (simp_all add: n_def)
  from bitlen_nat_bounds [OF npos]
  have b: "2 ^ (bitlen_nat n - 1) \<le> n" "n < 2 ^ bitlen_nat n" by simp_all
  have blpos: "0 < bitlen_nat n" using npos by (subst bitlen_nat.simps) simp
  have e: "expo x = int (bitlen_nat n) - 1" using True by (simp add: expo_def n_def)
  have p1: "pow2 (expo x) = 2 ^ (bitlen_nat n - 1)"
    using blpos by (simp add: e pow2_def nat_diff_distrib')
  have p2: "pow2 (expo x + 1) = 2 ^ bitlen_nat n"
    by (simp add: e pow2_def)
  have "(2::real) ^ (bitlen_nat n - 1) \<le> real n" using of_nat_mono [OF b(1), where 'a = real] by simp
  then have lo: "pow2 (expo x) \<le> x" using nx(1) p1 by linarith
  have "n + 1 \<le> 2 ^ bitlen_nat n" using b(2) by simp
  from of_nat_mono [OF this, where 'a = real] have "real n + 1 \<le> 2 ^ bitlen_nat n" by simp
  then have hi: "x < pow2 (expo x + 1)" using nx(2) p2 by linarith
  show ?thesis using lo hi by simp
next
  case False
  then have x1: "x < 1" by simp
  define y where "y = 1 / x"
  have y1: "1 < y" using assms x1 by (simp add: y_def)
  define n where "n = nat \<lfloor>y\<rfloor>"
  have npos: "0 < n" using y1 by (simp add: n_def)
  have ny: "real n \<le> y" "y < real n + 1"
    using y1 by (simp_all add: n_def)
  define f where "f = bitlen_nat n - 1"
  from bitlen_nat_bounds [OF npos]
  have b: "2 ^ f \<le> n" "n < 2 ^ bitlen_nat n" by (simp_all add: f_def)
  have blpos: "0 < bitlen_nat n" using npos by (subst bitlen_nat.simps) simp
  then have bl: "bitlen_nat n = Suc f" by (simp add: f_def)
  have "(2::real) ^ f \<le> real n" using of_nat_mono [OF b(1), where 'a = real] by simp
  then have lo: "2 ^ f \<le> y" using ny(1) by linarith
  have "n + 1 \<le> 2 ^ Suc f" using b(2) bl by simp
  from of_nat_mono [OF this, where 'a = real] have "real n + 1 \<le> 2 ^ Suc f" by simp
  then have hi: "y < 2 ^ Suc f" using ny(2) by linarith
  have xy: "x = 1 / y" using assms by (simp add: y_def)
  have ypos: "0 < y" using y1 by simp
  have xlo: "1 / 2 ^ Suc f < x"
    unfolding xy using hi ypos by (simp add: field_simps)
  have xhi: "x \<le> 1 / 2 ^ f"
    unfolding xy using lo ypos by (simp add: field_simps)
  show ?thesis
  proof (cases "x * 2 ^ f = 1")
    case True
    then have e: "expo x = - int f"
      using False by (simp add: expo_def Let_def y_def n_def f_def)
    have xe: "x = 1 / 2 ^ f" using True by (simp add: field_simps)
    have "pow2 (- int f) = 1 / 2 ^ f" by (simp add: pow2_def)
    moreover have "x < pow2 (- int f + 1)"
      using pow2_strict_mono [of "- int f" "- int f + 1"] xe \<open>pow2 (- int f) = 1 / 2 ^ f\<close> by simp
    ultimately show ?thesis using e xe by simp
  next
    case ne: False
    then have e: "expo x = - int f - 1"
      using False by (simp add: expo_def Let_def y_def n_def f_def)
    have p1: "pow2 (- int f - 1) = 1 / 2 ^ Suc f"
      by (simp add: pow2_def nat_add_distrib)
    have p2: "pow2 (- int f - 1 + 1) = 1 / 2 ^ f"
      by (simp add: pow2_def)
    have "x \<noteq> 1 / 2 ^ f" using ne by (simp add: field_simps)
    then have "x < 1 / 2 ^ f" using xhi by simp
    then show ?thesis using e p1 p2 xlo by simp
  qed
qed

lemma expo_unique:
  assumes "0 < x" "pow2 j \<le> x" "x < pow2 (j + 1)"
  shows "expo x = j"
proof -
  from expo_bounds [OF assms(1)]
  have b: "pow2 (expo x) \<le> x" "x < pow2 (expo x + 1)" by simp_all
  have "\<not> expo x < j"
  proof
    assume "expo x < j"
    then have "pow2 (expo x + 1) \<le> pow2 j" by (intro pow2_mono) simp
    then show False using b(2) assms(2) by simp
  qed
  moreover have "\<not> j < expo x"
  proof
    assume "j < expo x"
    then have "pow2 (j + 1) \<le> pow2 (expo x)" by (intro pow2_mono) simp
    then show False using b(1) assms(3) by simp
  qed
  ultimately show ?thesis by simp
qed

lemma rhe_ge: "of_int n \<le> t \<Longrightarrow> n \<le> round_half_even t"
proof -
  assume "of_int n \<le> t"
  then have "n \<le> \<lfloor>t\<rfloor>" by (simp add: le_floor_iff)
  then show ?thesis by (simp add: round_half_even_def Let_def)
qed

lemma rhe_le: "t \<le> of_int n \<Longrightarrow> round_half_even t \<le> n"
proof -
  assume h: "t \<le> of_int n"
  show ?thesis
  proof (cases "t = of_int n")
    case True
    then show ?thesis by (simp add: round_half_even_def Let_def)
  next
    case False
    with h have "t < of_int n" by simp
    then have "\<lfloor>t\<rfloor> < n" by (simp add: floor_less_iff)
    then show ?thesis by (simp add: round_half_even_def Let_def)
  qed
qed

lemma rhe_of_int: "round_half_even (of_int n) = n"
  by (simp add: round_half_even_def Let_def)

lemma rhe_err: "\<bar>of_int (round_half_even t) - t\<bar> \<le> 1 / 2"
proof -
  have "of_int \<lfloor>t\<rfloor> \<le> t" "t < of_int \<lfloor>t\<rfloor> + 1" by linarith+
  then show ?thesis by (auto simp: round_half_even_def Let_def)
qed

lemma round_to_ge:
  assumes "of_int n * pow2 k \<le> x"
  shows "of_int n * pow2 k \<le> round_to k x"
proof -
  have "of_int n \<le> x / pow2 k" using assms pow2_pos [of k] by (simp add: field_simps)
  then have "n \<le> round_half_even (x / pow2 k)" by (rule rhe_ge)
  then have "(of_int n :: real) \<le> of_int (round_half_even (x / pow2 k))" by simp
  then show ?thesis unfolding round_to_def using pow2_pos [of k] by simp
qed

lemma round_to_le:
  assumes "x \<le> of_int n * pow2 k"
  shows "round_to k x \<le> of_int n * pow2 k"
proof -
  have "x / pow2 k \<le> of_int n" using assms pow2_pos [of k] by (simp add: field_simps)
  then have "round_half_even (x / pow2 k) \<le> n" by (rule rhe_le)
  then have "(of_int (round_half_even (x / pow2 k)) :: real) \<le> of_int n" by simp
  then show ?thesis unfolding round_to_def using pow2_pos [of k] by simp
qed

lemma round_to_exact: "round_to k (of_int n * pow2 k) = of_int n * pow2 k"
  using pow2_pos [of k] by (simp add: round_to_def rhe_of_int)

lemma round_to_err: "\<bar>round_to k x - x\<bar> \<le> pow2 k / 2"
proof -
  have p: "0 < pow2 k" by (rule pow2_pos)
  have "round_to k x - x = (of_int (round_half_even (x / pow2 k)) - x / pow2 k) * pow2 k"
    using p by (simp add: round_to_def field_simps)
  then have "\<bar>round_to k x - x\<bar> = \<bar>of_int (round_half_even (x / pow2 k)) - x / pow2 k\<bar> * pow2 k"
    using p by (simp add: abs_mult)
  also have "\<dots> \<le> (1 / 2) * pow2 k"
    using rhe_err [of "x / pow2 k"] p by (intro mult_right_mono) simp_all
  finally show ?thesis by simp
qed

lemma fl_finite:
  assumes "x \<noteq> 0" "\<bar>round_to (ulp_exp x) x\<bar> < 2 ^ 1024"
  shows "fl x = Fin (round_to (ulp_exp x) x)"
  using assms by (simp add: fl_def Let_def abs_less_iff)

lemma fl_of_int:
  assumes "\<bar>n\<bar> < 2 ^ 53"
  shows "fl (of_int n) = Fin (of_int n)"
proof (cases "n = 0")
  case True
  then show ?thesis by (simp add: fl_def)
next
  case False
  define x :: real where "x = of_int n"
  have x0: "x \<noteq> 0" using False by (simp add: x_def)
  have ax: "1 \<le> \<bar>x\<bar>" "\<bar>x\<bar> < 2 ^ 53"
  proof -
    have "1 \<le> \<bar>n\<bar>" using False by simp
    then have "(1::real) \<le> of_int \<bar>n\<bar>" by (simp only: of_int_1_le_iff)
    then show "1 \<le> \<bar>x\<bar>" by (simp add: x_def)
    have "(of_int \<bar>n\<bar> :: real) < of_int (2 ^ 53)" using assms by (simp only: of_int_less_iff)
    then show "\<bar>x\<bar> < 2 ^ 53" by (simp add: x_def)
  qed
  have apos: "0 < \<bar>x\<bar>" using x0 by simp
  from expo_bounds [OF apos]
  have b: "pow2 (expo \<bar>x\<bar>) \<le> \<bar>x\<bar>" "\<bar>x\<bar> < pow2 (expo \<bar>x\<bar> + 1)" by simp_all
  have e0: "0 \<le> expo \<bar>x\<bar>"
  proof (rule ccontr)
    assume "\<not> 0 \<le> expo \<bar>x\<bar>"
    then have "pow2 (expo \<bar>x\<bar> + 1) \<le> pow2 0" by (intro pow2_mono) simp
    then show False using b(2) ax(1) by (simp add: pow2_def)
  qed
  have e52: "expo \<bar>x\<bar> \<le> 52"
  proof (rule ccontr)
    assume "\<not> expo \<bar>x\<bar> \<le> 52"
    then have "pow2 53 \<le> pow2 (expo \<bar>x\<bar>)" by (intro pow2_mono) simp
    then show False using b(1) ax(2) by (simp add: pow2_def)
  qed
  define j where "j = nat (52 - expo \<bar>x\<bar>)"
  have k: "ulp_exp x = - int j" using e0 e52 by (simp add: ulp_exp_def j_def)
  have pk: "pow2 (- int j) = 1 / 2 ^ j" by (simp add: pow2_def)
  have "x = of_int (n * 2 ^ j) * pow2 (- int j)" by (simp add: x_def pk)
  then have r: "round_to (ulp_exp x) x = x"
    using round_to_exact [of "- int j" "n * 2 ^ j"] k by simp
  have "fl x = Fin x"
    using fl_finite [OF x0] r ax(2) by simp
  then show ?thesis by (simp add: x_def)
qed

lemmas fl_eval = fl_def ulp_exp_def round_to_def expo_def pow2_def round_half_even_def
  bitlen_nat.simps Let_def

lemma fl_numeral: "(numeral n :: int) < 2 ^ 53 \<Longrightarrow> fl (numeral n) = Fin (numeral n)"
  using fl_of_int [of "numeral n"] by simp

lemma num_floor_idem: "num_floor (num_floor n) = num_floor n"
  by (cases n) simp_all

lemma num_floor_NaN_iff: "num_floor n = NaN \<longleftrightarrow> n = NaN"
  by (cases n) simp_all

section \<open>Bet admission: the claims\<close>

text \<open>
  C4, as stated: a user with balance 1000 and a bet of 900 already in the round is refused
  a new bet of 200 for insufficient balance. The code compares the balance with the new
  amount alone, so the bet is not refused on that ground; with ceilings of 5000 and 10000
  it is admitted.
\<close>

theorem balance_1000_bet_900_new_200_admitted:
  "rollCheckSendBetUser \<lparr> ROLL_MIN_AMOUNT = Fin 1, ROLL_MAX_AMOUNT = Fin 5, ROLL_MAX_PROFIT = Fin 10 \<rparr>
     (Obj \<lparr> amount = JNum (Fin 200), multiplier = JNum (Fin 200) \<rparr>)
     (Obj \<lparr> user_id = ''u'', balance = JNum (Fin 1000) \<rparr>)
     \<lparr> bet = Fin 900, winnings = Fin 1800 \<rparr> = Inr ()"
  by (simp add: rollCheckSendBetUser_def Math_floor_def num_gt_def fl_numeral)

text \<open>
  C4, amended: the insufficient-balance rejection is raised exactly when the raw balance
  is less than \<open>Math.floor\<close> of the new amount, whatever the user has bet before; in the
  scenario of the claim (balance 1000, 900 already bet, new bet 200) it is not raised.
\<close>

theorem insufficient_balance_iff_raw_balance:
  "(rollCheckSendBetUser ev data usr userStats = Inl InsufficientBalance
      \<longleftrightarrow> (\<exists>d u. data = Obj d \<and> usr = Obj u
                 \<and> num_lt (toNumber (balance u)) (Math_floor (amount d))))
   \<and> rollCheckSendBetUser ev (Obj \<lparr> amount = JNum (Fin 200), multiplier = m \<rparr>)
        (Obj \<lparr> user_id = i, balance = JNum (Fin 1000) \<rparr>) \<lparr> bet = Fin 900, winnings = w \<rparr>
      \<noteq> Inl InsufficientBalance"
  by (cases data; cases usr) (auto simp: rollCheckSendBetUser_def Math_floor_def)

theorem insufficient_balance_iff_raw_balance_witness:
  "rollCheckSendBetUser \<lparr> ROLL_MIN_AMOUNT = Fin 1, ROLL_MAX_AMOUNT = Fin 5, ROLL_MAX_PROFIT = Fin 10 \<rparr>
     (Obj \<lparr> amount = JNum (Fin 2000), multiplier = JNum (Fin 200) \<rparr>)
     (Obj \<lparr> user_id = ''u'', balance = JNum (Fin 1000) \<rparr>)
     \<lparr> bet = Fin 0, winnings = Fin 0 \<rparr> = Inl InsufficientBalance"
  using insufficient_balance_iff_raw_balance
    [of "\<lparr> ROLL_MIN_AMOUNT = Fin 1, ROLL_MAX_AMOUNT = Fin 5, ROLL_MAX_PROFIT = Fin 10 \<rparr>"
        "Obj \<lparr> amount = JNum (Fin 2000), multiplier = JNum (Fin 200) \<rparr>"
        "Obj \<lparr> user_id = ''u'', balance = JNum (Fin 1000) \<rparr>"
        "\<lparr> bet = Fin 0, winnings = Fin 0 \<rparr>"]
  by (simp add: Math_floor_def)




lemma num_add_int:
  "\<bar>a + b\<bar> < 2 ^ 53 \<Longrightarrow> num_add (Fin (of_int a)) (Fin (of_int b)) = Fin (of_int (a + b))"
  using fl_of_int [of "a + b"] by simp

text \<open>
  C6, as stated: the step fails exactly when the round total plus the new amount exceeds
  the ceiling. The code compares \<open>Math.floor\<close> of the sum with the ceiling: with ceiling
  1000 and a total of 800, the amount 200.5 is admitted although \<open>800 + 200.5\<close> exceeds
  1000.
\<close>

theorem amount_200_5_over_ceiling_admitted:
  "num_floor (num_mul (ROLL_MAX_AMOUNT \<lparr> ROLL_MIN_AMOUNT = Fin 1, ROLL_MAX_AMOUNT = Fin 1, ROLL_MAX_PROFIT = Fin 10 \<rparr>) (Fin 1000)) = Fin 1000
   \<and> bet (rollGetUserGameStats \<lparr> user_id = ''u1'', balance = JNum (Fin 5000) \<rparr>
        [\<lparr> amount = JNum (Fin 500), multiplier = JNum (Fin 200), bet_user_id = ''u1'' \<rparr>,
         \<lparr> amount = JNum (Fin 70), multiplier = JNum (Fin 150), bet_user_id = ''u2'' \<rparr>,
         \<lparr> amount = JNum (Fin 300), multiplier = JNum (Fin 300), bet_user_id = ''u1'' \<rparr>])
       = Fin 800
   \<and> (1000 :: real) < 800 + 401 / 2
   \<and> rollCheckSendBetUser \<lparr> ROLL_MIN_AMOUNT = Fin 1, ROLL_MAX_AMOUNT = Fin 1, ROLL_MAX_PROFIT = Fin 10 \<rparr>
        (Obj \<lparr> amount = JNum (Fin (401 / 2)), multiplier = JNum (Fin 200) \<rparr>)
        (Obj \<lparr> user_id = ''u1'', balance = JNum (Fin 5000) \<rparr>)
        (rollGetUserGameStats \<lparr> user_id = ''u1'', balance = JNum (Fin 5000) \<rparr>
        [\<lparr> amount = JNum (Fin 500), multiplier = JNum (Fin 200), bet_user_id = ''u1'' \<rparr>,
         \<lparr> amount = JNum (Fin 70), multiplier = JNum (Fin 150), bet_user_id = ''u2'' \<rparr>,
         \<lparr> amount = JNum (Fin 300), multiplier = JNum (Fin 300), bet_user_id = ''u1'' \<rparr>])
       = Inr ()"
proof -
  let ?u = "\<lparr> user_id = ''u1'', balance = JNum (Fin 5000) \<rparr>"
  let ?bets = "[\<lparr> amount = JNum (Fin 500), multiplier = JNum (Fin 200), bet_user_id = ''u1'' \<rparr>,
         \<lparr> amount = JNum (Fin 70), multiplier = JNum (Fin 150), bet_user_id = ''u2'' \<rparr>,
         \<lparr> amount = JNum (Fin 300), multiplier = JNum (Fin 300), bet_user_id = ''u1'' \<rparr>]"
  have st: "rollGetUserGameStats ?u ?bets = \<lparr> bet = Fin 800, winnings = Fin 1900 \<rparr>"
    by (simp add: rollGetUserGameStats_def stats_step_def fl_numeral)
  have f: "fl (2001 / 2) = Fin (2001 / 2)"
    by (simp add: fl_eval)
  show ?thesis
    by (simp add: st rollCheckSendBetUser_def Math_floor_def num_gt_def fl_numeral f)
qed

text \<open>
  C6, amended: with a max-bet ceiling of \<open>c\<close> (the floor of the configured value) and a
  user whose bets in the round total \<open>t\<close>, as \<open>rollGetUserGameStats\<close> computes it, the
  step raises the max-bet rejection exactly when the balance check has passed and
  \<open>Math.floor\<close> of the new amount plus \<open>t\<close> exceeds \<open>c\<close>, and it fails as a whole
  exactly when the balance check, this check or the profit check fails. Where the double
  addition is exact the sum's floor is the floor of the amount plus \<open>t\<close>; so for an
  integer amount \<open>a\<close> the bet is refused whenever \<open>t + a\<close> exceeds \<open>c\<close>, the
  max-bet rejection is raised exactly then once the balance suffices, and the bet is
  admitted exactly when the balance suffices, \<open>t + a\<close> is within \<open>c\<close> and the profit
  ceiling holds. The witness has ceiling 1000 and total 800: 300 is refused, 200 and 200.5
  are admitted.
\<close>

theorem max_bet_ceiling_on_floor_of_sum:
  assumes ceiling: "num_floor (num_mul (ROLL_MAX_AMOUNT ev) (Fin 1000)) = Fin (of_int c)"
    and total: "bet (rollGetUserGameStats u rollBets) = Fin (of_int t)"
  shows
    "(rollCheckSendBetUser ev (Obj \<lparr> amount = v, multiplier = m \<rparr>)
         (Obj u) (rollGetUserGameStats u rollBets) = Inl MaxAmount
       \<longleftrightarrow> \<not> num_lt (toNumber (balance u)) (Math_floor v)
           \<and> num_gt (num_floor (num_add (toNumber v) (Fin (of_int t)))) (Fin (of_int c)))
     \<and> (isl (rollCheckSendBetUser ev (Obj \<lparr> amount = v, multiplier = m \<rparr>)
               (Obj u) (rollGetUserGameStats u rollBets))
         \<longleftrightarrow> num_lt (toNumber (balance u)) (Math_floor v)
             \<or> num_gt (num_floor (num_add (toNumber v) (Fin (of_int t)))) (Fin (of_int c))
             \<or> num_gt
                  (num_floor
                     (num_add
                        (num_mul (toNumber v) (num_div (toNumber m) (Fin 100)))
                        (winnings (rollGetUserGameStats u rollBets))))
                  (num_floor (num_mul (ROLL_MAX_PROFIT ev) (Fin 1000))))
     \<and> (fl (r + of_int t) = Fin (r + of_int t)
          \<and> \<not> num_lt (toNumber (balance u)) (Fin (of_int \<lfloor>r\<rfloor>)) \<longrightarrow>
          (rollCheckSendBetUser ev (Obj \<lparr> amount = JNum (Fin r), multiplier = m \<rparr>)
             (Obj u) (rollGetUserGameStats u rollBets) = Inl MaxAmount
           \<longleftrightarrow> c < \<lfloor>r\<rfloor> + t))
     \<and> (\<bar>a\<bar> < 2 ^ 52 \<and> \<bar>t\<bar> < 2 ^ 52 \<longrightarrow>
          (c < t + a \<longrightarrow>
             isl (rollCheckSendBetUser ev (Obj \<lparr> amount = JNum (Fin (of_int a)), multiplier = m \<rparr>)
                    (Obj u) (rollGetUserGameStats u rollBets)))
          \<and> (\<not> num_lt (toNumber (balance u)) (Fin (of_int a)) \<longrightarrow>
               (rollCheckSendBetUser ev (Obj \<lparr> amount = JNum (Fin (of_int a)), multiplier = m \<rparr>)
                  (Obj u) (rollGetUserGameStats u rollBets) = Inl MaxAmount
                \<longleftrightarrow> c < t + a))
          \<and> (rollCheckSendBetUser ev (Obj \<lparr> amount = JNum (Fin (of_int a)), multiplier = m \<rparr>)
                (Obj u) (rollGetUserGameStats u rollBets) = Inr ()
              \<longleftrightarrow> \<not> num_lt (toNumber (balance u)) (Fin (of_int a)) \<and> t + a \<le> c
                  \<and> \<not> num_gt
                        (num_floor
                           (num_add
                              (num_mul (Fin (of_int a)) (num_div (toNumber m) (Fin 100)))
                              (winnings (rollGetUserGameStats u rollBets))))
                        (num_floor (num_mul (ROLL_MAX_PROFIT ev) (Fin 1000)))))"
proof (intro conjI)
  show "rollCheckSendBetUser ev (Obj \<lparr> amount = v, multiplier = m \<rparr>)
         (Obj u) (rollGetUserGameStats u rollBets) = Inl MaxAmount
       \<longleftrightarrow> \<not> num_lt (toNumber (balance u)) (Math_floor v)
           \<and> num_gt (num_floor (num_add (toNumber v) (Fin (of_int t)))) (Fin (of_int c))"
    by (simp add: rollCheckSendBetUser_def ceiling total)
  show "isl (rollCheckSendBetUser ev (Obj \<lparr> amount = v, multiplier = m \<rparr>)
               (Obj u) (rollGetUserGameStats u rollBets))
         \<longleftrightarrow> num_lt (toNumber (balance u)) (Math_floor v)
             \<or> num_gt (num_floor (num_add (toNumber v) (Fin (of_int t)))) (Fin (of_int c))
             \<or> num_gt
                  (num_floor
                     (num_add
                        (num_mul (toNumber v) (num_div (toNumber m) (Fin 100)))
                        (winnings (rollGetUserGameStats u rollBets))))
                  (num_floor (num_mul (ROLL_MAX_PROFIT ev) (Fin 1000)))"
    by (simp add: rollCheckSendBetUser_def ceiling total)
  show "fl (r + of_int t) = Fin (r + of_int t)
          \<and> \<not> num_lt (toNumber (balance u)) (Fin (of_int \<lfloor>r\<rfloor>)) \<longrightarrow>
          (rollCheckSendBetUser ev (Obj \<lparr> amount = JNum (Fin r), multiplier = m \<rparr>)
             (Obj u) (rollGetUserGameStats u rollBets) = Inl MaxAmount
           \<longleftrightarrow> c < \<lfloor>r\<rfloor> + t)"
  proof
    assume h: "fl (r + of_int t) = Fin (r + of_int t)
          \<and> \<not> num_lt (toNumber (balance u)) (Fin (of_int \<lfloor>r\<rfloor>))"
    have fs: "num_floor (num_add (Fin r) (Fin (of_int t))) = Fin (of_int (\<lfloor>r\<rfloor> + t))"
      using h by simp
    have gt: "num_gt (num_floor (num_add (Fin r) (bet (rollGetUserGameStats u rollBets))))
              (num_floor (num_mul (ROLL_MAX_AMOUNT ev) (Fin 1000))) \<longleftrightarrow> c < \<lfloor>r\<rfloor> + t"
      unfolding ceiling total fs num_gt_def num_lt.simps by (simp only: of_int_less_iff)
    show "rollCheckSendBetUser ev (Obj \<lparr> amount = JNum (Fin r), multiplier = m \<rparr>)
             (Obj u) (rollGetUserGameStats u rollBets) = Inl MaxAmount
           \<longleftrightarrow> c < \<lfloor>r\<rfloor> + t"
      using gt h by (auto simp: rollCheckSendBetUser_def Math_floor_def)
  qed
  show "\<bar>a\<bar> < 2 ^ 52 \<and> \<bar>t\<bar> < 2 ^ 52 \<longrightarrow>
          (c < t + a \<longrightarrow>
             isl (rollCheckSendBetUser ev (Obj \<lparr> amount = JNum (Fin (of_int a)), multiplier = m \<rparr>)
                    (Obj u) (rollGetUserGameStats u rollBets)))
          \<and> (\<not> num_lt (toNumber (balance u)) (Fin (of_int a)) \<longrightarrow>
               (rollCheckSendBetUser ev (Obj \<lparr> amount = JNum (Fin (of_int a)), multiplier = m \<rparr>)
                  (Obj u) (rollGetUserGameStats u rollBets) = Inl MaxAmount
                \<longleftrightarrow> c < t + a))
          \<and> (rollCheckSendBetUser ev (Obj \<lparr> amount = JNum (Fin (of_int a)), multiplier = m \<rparr>)
                (Obj u) (rollGetUserGameStats u rollBets) = Inr ()
              \<longleftrightarrow> \<not> num_lt (toNumber (balance u)) (Fin (of_int a)) \<and> t + a \<le> c
                  \<and> \<not> num_gt
                        (num_floor
                           (num_add
                              (num_mul (Fin (of_int a)) (num_div (toNumber m) (Fin 100)))
                              (winnings (rollGetUserGameStats u rollBets))))
                        (num_floor (num_mul (ROLL_MAX_PROFIT ev) (Fin 1000))))"
  proof
    assume range: "\<bar>a\<bar> < 2 ^ 52 \<and> \<bar>t\<bar> < 2 ^ 52"
    have "\<bar>a\<bar> < 2 ^ 52" "\<bar>t\<bar> < 2 ^ 52" using range by simp_all
    then have "\<bar>a + t\<bar> < 2 ^ 53" by simp
    then have sum: "num_add (Fin (of_int a)) (Fin (of_int t)) = Fin (of_int (a + t))"
      by (rule num_add_int)
    have gt: "num_gt (num_floor (num_add (Fin (of_int a)) (bet (rollGetUserGameStats u rollBets))))
              (num_floor (num_mul (ROLL_MAX_AMOUNT ev) (Fin 1000))) \<longleftrightarrow> c < t + a"
      unfolding ceiling total sum num_gt_def num_floor.simps floor_of_int num_lt.simps
      by (simp only: of_int_less_iff add.commute)
    show "(c < t + a \<longrightarrow>
             isl (rollCheckSendBetUser ev (Obj \<lparr> amount = JNum (Fin (of_int a)), multiplier = m \<rparr>)
                    (Obj u) (rollGetUserGameStats u rollBets)))
          \<and> (\<not> num_lt (toNumber (balance u)) (Fin (of_int a)) \<longrightarrow>
               (rollCheckSendBetUser ev (Obj \<lparr> amount = JNum (Fin (of_int a)), multiplier = m \<rparr>)
                  (Obj u) (rollGetUserGameStats u rollBets) = Inl MaxAmount
                \<longleftrightarrow> c < t + a))
          \<and> (rollCheckSendBetUser ev (Obj \<lparr> amount = JNum (Fin (of_int a)), multiplier = m \<rparr>)
                (Obj u) (rollGetUserGameStats u rollBets) = Inr ()
              \<longleftrightarrow> \<not> num_lt (toNumber (balance u)) (Fin (of_int a)) \<and> t + a \<le> c
                  \<and> \<not> num_gt
                        (num_floor
                           (num_add
                              (num_mul (Fin (of_int a)) (num_div (toNumber m) (Fin 100)))
                              (winnings (rollGetUserGameStats u rollBets))))
                        (num_floor (num_mul (ROLL_MAX_PROFIT ev) (Fin 1000))))"
      using gt by (auto simp: rollCheckSendBetUser_def Math_floor_def)
  qed
qed

theorem max_bet_ceiling_on_floor_of_sum_witness:
  "num_floor (num_mul (ROLL_MAX_AMOUNT \<lparr> ROLL_MIN_AMOUNT = Fin 1, ROLL_MAX_AMOUNT = Fin 1, ROLL_MAX_PROFIT = Fin 10 \<rparr>) (Fin 1000)) = Fin (of_int 1000)
   \<and> bet (rollGetUserGameStats \<lparr> user_id = ''u1'', balance = JNum (Fin 5000) \<rparr>
        [\<lparr> amount = JNum (Fin 500), multiplier = JNum (Fin 200), bet_user_id = ''u1'' \<rparr>,
         \<lparr> amount = JNum (Fin 70), multiplier = JNum (Fin 150), bet_user_id = ''u2'' \<rparr>,
         \<lparr> amount = JNum (Fin 300), multiplier = JNum (Fin 300), bet_user_id = ''u1'' \<rparr>])
       = Fin (of_int 800)
   \<and> rollCheckSendBetUser \<lparr> ROLL_MIN_AMOUNT = Fin 1, ROLL_MAX_AMOUNT = Fin 1, ROLL_MAX_PROFIT = Fin 10 \<rparr>
        (Obj \<lparr> amount = JNum (Fin (of_int 300)), multiplier = JNum (Fin 200) \<rparr>)
        (Obj \<lparr> user_id = ''u1'', balance = JNum (Fin 5000) \<rparr>)
        (rollGetUserGameStats \<lparr> user_id = ''u1'', balance = JNum (Fin 5000) \<rparr>
        [\<lparr> amount = JNum (Fin 500), multiplier = JNum (Fin 200), bet_user_id = ''u1'' \<rparr>,
         \<lparr> amount = JNum (Fin 70), multiplier = JNum (Fin 150), bet_user_id = ''u2'' \<rparr>,
         \<lparr> amount = JNum (Fin 300), multiplier = JNum (Fin 300), bet_user_id = ''u1'' \<rparr>])
       = Inl MaxAmount
   \<and> rollCheckSendBetUser \<lparr> ROLL_MIN_AMOUNT = Fin 1, ROLL_MAX_AMOUNT = Fin 1, ROLL_MAX_PROFIT = Fin 10 \<rparr>
        (Obj \<lparr> amount = JNum (Fin (of_int 200)), multiplier = JNum (Fin 200) \<rparr>)
        (Obj \<lparr> user_id = ''u1'', balance = JNum (Fin 5000) \<rparr>)
        (rollGetUserGameStats \<lparr> user_id = ''u1'', balance = JNum (Fin 5000) \<rparr>
        [\<lparr> amount = JNum (Fin 500), multiplier = JNum (Fin 200), bet_user_id = ''u1'' \<rparr>,
         \<lparr> amount = JNum (Fin 70), multiplier = JNum (Fin 150), bet_user_id = ''u2'' \<rparr>,
         \<lparr> amount = JNum (Fin 300), multiplier = JNum (Fin 300), bet_user_id = ''u1'' \<rparr>])
       = Inr ()
   \<and> fl (401 / 2 + of_int 800) = Fin (401 / 2 + of_int 800)
   \<and> \<lfloor>401 / 2 :: real\<rfloor> + 800 = 1000
   \<and> rollCheckSendBetUser \<lparr> ROLL_MIN_AMOUNT = Fin 1, ROLL_MAX_AMOUNT = Fin 1, ROLL_MAX_PROFIT = Fin 10 \<rparr>
        (Obj \<lparr> amount = JNum (Fin (401 / 2)), multiplier = JNum (Fin 200) \<rparr>)
        (Obj \<lparr> user_id = ''u1'', balance = JNum (Fin 5000) \<rparr>)
        (rollGetUserGameStats \<lparr> user_id = ''u1'', balance = JNum (Fin 5000) \<rparr>
        [\<lparr> amount = JNum (Fin 500), multiplier = JNum (Fin 200), bet_user_id = ''u1'' \<rparr>,
         \<lparr> amount = JNum (Fin 70), multiplier = JNum (Fin 150), bet_user_id = ''u2'' \<rparr>,
         \<lparr> amount = JNum (Fin 300), multiplier = JNum (Fin 300), bet_user_id = ''u1'' \<rparr>])
       \<noteq> Inl MaxAmount"
proof -
  let ?ev = "\<lparr> ROLL_MIN_AMOUNT = Fin 1, ROLL_MAX_AMOUNT = Fin 1, ROLL_MAX_PROFIT = Fin 10 \<rparr>"
  let ?u = "\<lparr> user_id = ''u1'', balance = JNum (Fin 5000) \<rparr>"
  let ?bets = "[\<lparr> amount = JNum (Fin 500), multiplier = JNum (Fin 200), bet_user_id = ''u1'' \<rparr>,
         \<lparr> amount = JNum (Fin 70), multiplier = JNum (Fin 150), bet_user_id = ''u2'' \<rparr>,
         \<lparr> amount = JNum (Fin 300), multiplier = JNum (Fin 300), bet_user_id = ''u1'' \<rparr>]"
  have st: "rollGetUserGameStats ?u ?bets = \<lparr> bet = Fin 800, winnings = Fin 1900 \<rparr>"
    by (simp add: rollGetUserGameStats_def stats_step_def fl_numeral)
  have h1: "num_floor (num_mul (ROLL_MAX_AMOUNT ?ev) (Fin 1000)) = Fin (of_int 1000)"
    by (simp add: fl_numeral)
  have h2: "bet (rollGetUserGameStats ?u ?bets) = Fin (of_int 800)"
    by (simp add: st)
  have f: "fl (2001 / 2) = Fin (2001 / 2)"
    by (simp add: fl_eval)
  show ?thesis
    using max_bet_ceiling_on_floor_of_sum
            [OF h1 h2, where m = "JNum (Fin 200)" and a = 300 and r = "401 / 2"
               and v = "JNum (Fin 300)"]
          max_bet_ceiling_on_floor_of_sum
            [OF h1 h2, where m = "JNum (Fin 200)" and a = 200 and r = "401 / 2"
               and v = "JNum (Fin 200)"] h1 h2
    by (simp add: st fl_numeral num_gt_def f)
qed

lemma Math_floor_JNum_floor: "Math_floor (JNum (Math_floor v)) = Math_floor v"
  by (simp add: Math_floor_def num_floor_idem)

lemma isNaN_JNum_floor: "isNaN (JNum (Math_floor v)) = isNaN v"
  by (simp add: isNaN_def Math_floor_def num_floor_NaN_iff)

text \<open>
  C10, as stated: a non-integer amount passes validation exactly when its floor does.
  With a profit ceiling of 2000 the amount 1000.5 at multiplier 2.00 is refused (its
  winnings are 2001) while its floor 1000 is admitted: the profit check multiplies the
  raw amount.
\<close>

theorem amount_1000_5_refused_floor_admitted:
  "num_floor (Fin (2001 / 2)) = Fin 1000
   \<and> rollCheckSendBetData \<lparr> ROLL_MIN_AMOUNT = Fin 1, ROLL_MAX_AMOUNT = Fin 5, ROLL_MAX_PROFIT = Fin 2 \<rparr>
        (Obj \<lparr> amount = JNum (Fin (2001 / 2)), multiplier = JNum (Fin 200) \<rparr>) = Inr ()
   \<and> rollCheckSendBetUser \<lparr> ROLL_MIN_AMOUNT = Fin 1, ROLL_MAX_AMOUNT = Fin 5, ROLL_MAX_PROFIT = Fin 2 \<rparr>
        (Obj \<lparr> amount = JNum (Fin (2001 / 2)), multiplier = JNum (Fin 200) \<rparr>)
        (Obj \<lparr> user_id = ''u'', balance = JNum (Fin 5000) \<rparr>)
        \<lparr> bet = Fin 0, winnings = Fin 0 \<rparr> = Inl MaxProfit
   \<and> rollCheckSendBetData \<lparr> ROLL_MIN_AMOUNT = Fin 1, ROLL_MAX_AMOUNT = Fin 5, ROLL_MAX_PROFIT = Fin 2 \<rparr>
        (Obj \<lparr> amount = JNum (Fin 1000), multiplier = JNum (Fin 200) \<rparr>) = Inr ()
   \<and> rollCheckSendBetUser \<lparr> ROLL_MIN_AMOUNT = Fin 1, ROLL_MAX_AMOUNT = Fin 5, ROLL_MAX_PROFIT = Fin 2 \<rparr>
        (Obj \<lparr> amount = JNum (Fin 1000), multiplier = JNum (Fin 200) \<rparr>)
        (Obj \<lparr> user_id = ''u'', balance = JNum (Fin 5000) \<rparr>)
        \<lparr> bet = Fin 0, winnings = Fin 0 \<rparr> = Inr ()"
proof -
  have f: "fl (2001 / 2) = Fin (2001 / 2)"
    by (simp add: fl_eval)
  show ?thesis
    by (simp add: rollCheckSendBetData_def rollCheckSendBetUser_def Math_floor_def isNaN_def
        num_le_def num_gt_def fl_numeral f)
qed

text \<open>
  C10, amended: an amount need not be an integer. Format validation (positivity and
  minimum bet) and the balance check read the amount through \<open>Math.floor\<close> only, so an
  amount and its floor fare alike there; so does the max-bet check when the double
  addition of the amount and the round total is exact. The profit check is left out: it
  multiplies the raw amount.
\<close>

theorem floor_of_amount_decides_format_and_balance:
  "rollCheckSendBetData ev (Obj \<lparr> amount = v, multiplier = m \<rparr>)
     = rollCheckSendBetData ev (Obj \<lparr> amount = JNum (Math_floor v), multiplier = m \<rparr>)
   \<and> ((rollCheckSendBetUser ev (Obj \<lparr> amount = v, multiplier = m \<rparr>) usr userStats
          = Inl InsufficientBalance)
        = (rollCheckSendBetUser ev (Obj \<lparr> amount = JNum (Math_floor v), multiplier = m \<rparr>) usr userStats
          = Inl InsufficientBalance))
   \<and> (bet userStats = Fin (of_int t) \<and> fl (a + of_int t) = Fin (a + of_int t)
        \<and> \<bar>\<lfloor>a\<rfloor> + t\<bar> < 2 ^ 53 \<longrightarrow>
        (rollCheckSendBetUser ev (Obj \<lparr> amount = JNum (Fin a), multiplier = m \<rparr>) usr userStats
          = Inl MaxAmount)
        = (rollCheckSendBetUser ev (Obj \<lparr> amount = JNum (Math_floor (JNum (Fin a))), multiplier = m \<rparr>) usr userStats
          = Inl MaxAmount))"
proof (intro conjI impI)
  show "rollCheckSendBetData ev (Obj \<lparr> amount = v, multiplier = m \<rparr>)
     = rollCheckSendBetData ev (Obj \<lparr> amount = JNum (Math_floor v), multiplier = m \<rparr>)"
    by (cases v)
       (simp_all add: rollCheckSendBetData_def Math_floor_JNum_floor isNaN_JNum_floor,
        simp_all add: Math_floor_def isNaN_def num_le_def)
  show "(rollCheckSendBetUser ev (Obj \<lparr> amount = v, multiplier = m \<rparr>) usr userStats
          = Inl InsufficientBalance)
        = (rollCheckSendBetUser ev (Obj \<lparr> amount = JNum (Math_floor v), multiplier = m \<rparr>) usr userStats
          = Inl InsufficientBalance)"
    by (cases usr) (simp_all add: rollCheckSendBetUser_def Math_floor_JNum_floor)
  show "(rollCheckSendBetUser ev (Obj \<lparr> amount = JNum (Fin a), multiplier = m \<rparr>) usr userStats
          = Inl MaxAmount)
        = (rollCheckSendBetUser ev (Obj \<lparr> amount = JNum (Math_floor (JNum (Fin a))), multiplier = m \<rparr>) usr userStats
          = Inl MaxAmount)"
    if h: "bet userStats = Fin (of_int t) \<and> fl (a + of_int t) = Fin (a + of_int t)
        \<and> \<bar>\<lfloor>a\<rfloor> + t\<bar> < 2 ^ 53"
  proof -
    have s1: "num_floor (num_add (Fin a) (bet userStats)) = Fin (of_int (\<lfloor>a\<rfloor> + t))"
      using h by simp
    have s2: "num_floor (num_add (Fin (of_int \<lfloor>a\<rfloor>)) (bet userStats)) = Fin (of_int (\<lfloor>a\<rfloor> + t))"
      using h num_add_int [of "\<lfloor>a\<rfloor>" t] by simp
    show ?thesis
      by (cases usr) (simp_all add: rollCheckSendBetUser_def Math_floor_def s1 s2 del: of_int_add)
  qed
qed

theorem floor_of_amount_decides_format_and_balance_witness:
  "bet \<lparr> bet = Fin 900, winnings = Fin 0 \<rparr> = Fin (of_int 900)
   \<and> fl (3 / 2 + of_int 900) = Fin (3 / 2 + of_int 900)
   \<and> \<bar>\<lfloor>3 / 2 :: real\<rfloor> + 900\<bar> < 2 ^ 53
   \<and> rollCheckSendBetUser \<lparr> ROLL_MIN_AMOUNT = Fin 1, ROLL_MAX_AMOUNT = Fin (1 / 2), ROLL_MAX_PROFIT = Fin 2 \<rparr>
        (Obj \<lparr> amount = JNum (Fin (3 / 2)), multiplier = JNum (Fin 200) \<rparr>)
        (Obj \<lparr> user_id = ''u'', balance = JNum (Fin 5000) \<rparr>)
        \<lparr> bet = Fin 900, winnings = Fin 0 \<rparr> = Inl MaxAmount
   \<and> rollCheckSendBetUser \<lparr> ROLL_MIN_AMOUNT = Fin 1, ROLL_MAX_AMOUNT = Fin (1 / 2), ROLL_MAX_PROFIT = Fin 2 \<rparr>
        (Obj \<lparr> amount = JNum (Fin 1), multiplier = JNum (Fin 200) \<rparr>)
        (Obj \<lparr> user_id = ''u'', balance = JNum (Fin 5000) \<rparr>)
        \<lparr> bet = Fin 900, winnings = Fin 0 \<rparr> = Inl MaxAmount"
proof -
  have f: "fl (1803 / 2) = Fin (1803 / 2)"
    by (simp add: fl_eval)
  show ?thesis
    using floor_of_amount_decides_format_and_balance [of "\<lparr> ROLL_MIN_AMOUNT = Fin 1, ROLL_MAX_AMOUNT = Fin (1 / 2), ROLL_MAX_PROFIT = Fin 2 \<rparr>"
        "JNum (Fin (3 / 2))" "JNum (Fin 200)" "Obj \<lparr> user_id = ''u'', balance = JNum (Fin 5000) \<rparr>"
        "\<lparr> bet = Fin 900, winnings = Fin 0 \<rparr>" 900 "3 / 2"]
    by (simp add: rollCheckSendBetUser_def Math_floor_def num_gt_def fl_numeral f)
qed

text \<open>
  Why the max-bet check needs the exactness: \<open>1.9999999999999998 + 2\<close> is \<open>4\<close> in
  double arithmetic, one more than the floor of the amount plus 2.
\<close>

lemma max_bet_sum_rounds_up:
  "num_floor (num_add (Fin (2 - 1 / 2 ^ 52)) (Fin 2)) = Fin 4
   \<and> num_add (num_floor (Fin (2 - 1 / 2 ^ 52))) (Fin 2) = Fin 3"
  by (simp add: fl_eval)

section \<open>Hexadecimal strings\<close>

lemma hex_digit_lt16: "hex_digit c = Some d \<Longrightarrow> d < 16"
  by (auto simp: hex_digit_def Let_def split: if_splits)

lemma hex_digit_not_ws: "hex_digit c \<noteq> None \<Longrightarrow> \<not> is_ws c"
  by (auto simp: hex_digit_def is_ws_def Let_def split: if_splits)

lemma hex_digit_not_sign:
  "hex_digit c \<noteq> None \<Longrightarrow> c \<noteq> CHR ''-'' \<and> c \<noteq> CHR ''+'' \<and> c \<noteq> CHR ''x'' \<and> c \<noteq> CHR ''X''"
  by (auto simp: hex_digit_def)

lemma hex_value_alt: "hex_value s = foldl digit_step 0 s"
  by (rule hex_value_def)

lemma parse_digits_hex:
  "is_hex s \<Longrightarrow> parse_digits (Some a) s = Some (foldl digit_step a s)"
  by (induction s arbitrary: a) (auto simp: is_hex_def digit_step_def)

lemma parse_digits_hex_None:
  assumes "is_hex s" "s \<noteq> []"
  shows "parse_digits None s = Some (hex_value s)"
proof -
  obtain c cs where s: "s = c # cs" using assms(2) by (cases s) auto
  have cs: "is_hex cs" and c: "hex_digit c \<noteq> None" using assms(1) by (auto simp: s is_hex_def)
  then obtain d where d: "hex_digit c = Some d" by auto
  show ?thesis
    using parse_digits_hex [OF cs, of d] by (simp add: s d hex_value_alt digit_step_def)
qed

lemma hex_value_snoc: "hex_value (s @ [c]) = digit_step (hex_value s) c"
  by (simp add: hex_value_alt)

lemma hex_value_bound: "hex_value s < 16 ^ length s"
proof (induction s rule: rev_induct)
  case Nil
  show ?case by (simp add: hex_value_alt)
next
  case (snoc c s)
  have "(case hex_digit c of Some d \<Rightarrow> d | None \<Rightarrow> 0) < 16"
    by (auto split: option.splits dest: hex_digit_lt16)
  then have "digit_step (hex_value s) c < 16 * (hex_value s + 1)"
    by (simp add: digit_step_def)
  also have "\<dots> \<le> 16 * 16 ^ length s"
    using snoc.IH by (intro mult_le_mono2) simp
  finally show ?case by (simp add: hex_value_snoc)
qed

lemma parseInt16_hex:
  assumes "is_hex s" "s \<noteq> []" "length s \<le> 13"
  shows "parseInt16 s = Fin (real (hex_value s))"
proof -
  obtain c cs where s: "s = c # cs" using assms(2) by (cases s) auto
  have c: "hex_digit c \<noteq> None" using assms(1) by (simp add: s is_hex_def)
  have ws: "dropWhile is_ws s = s" using hex_digit_not_ws [OF c] by (simp add: s)
  have sg: "c \<noteq> CHR ''-''" "c \<noteq> CHR ''+''" using hex_digit_not_sign [OF c] by simp_all
  have px: "(case s of a # b # r \<Rightarrow>
               if a = CHR ''0'' \<and> (b = CHR ''x'' \<or> b = CHR ''X'') then r else s
             | _ \<Rightarrow> s) = s"
  proof (cases cs)
    case Nil
    then show ?thesis by (simp add: s)
  next
    case (Cons b r)
    then have "hex_digit b \<noteq> None" using assms(1) by (simp add: s is_hex_def)
    then have "b \<noteq> CHR ''x''" "b \<noteq> CHR ''X''" using hex_digit_not_sign by blast+
    then show ?thesis by (simp add: s Cons)
  qed
  have "hex_value s < 16 ^ length s" by (rule hex_value_bound)
  also have "\<dots> \<le> 16 ^ 13" using assms(3) by (intro power_increasing) simp_all
  finally have "int (hex_value s) < 2 ^ 53" by simp
  then have "fl (real_of_int (int (hex_value s))) = Fin (real_of_int (int (hex_value s)))"
    by (intro fl_of_int) simp
  then have ex: "fl (real (hex_value s)) = Fin (real (hex_value s))" by simp
  have pd: "parse_digits None s = Some (hex_value s)"
    using assms(1,2) by (rule parse_digits_hex_None)
  have neg: "(case s of c # _ \<Rightarrow> c = CHR ''-'' | [] \<Rightarrow> False) = False"
    using sg by (simp add: s)
  have s2: "(case s of c # r \<Rightarrow> if c = CHR ''-'' \<or> c = CHR ''+'' then r else s | [] \<Rightarrow> s) = s"
    using sg by (simp add: s)
  show ?thesis
    unfolding parseInt16_def Let_def ws neg s2 px pd by (simp add: ex)
qed

section \<open>The loop of rollIsHashDivisible\<close>

lemma house_mod_eq: "house_mod = Fin 20"
  by (simp add: house_mod_def fl_eval)

lemma wrap32_small: "0 \<le> n \<Longrightarrow> n < 2 ^ 31 \<Longrightarrow> wrap32 n = n"
  by (simp add: wrap32_def)

lemma shl16_small:
  assumes "v < 20"
  shows "shl (Fin (real v)) 16 = Fin (of_int (int v * 65536))"
proof -
  have t: "toInt32 (Fin (real v)) = int v"
    using assms by (simp add: trunc_def wrap32_small)
  have "wrap32 (int v * 65536) = int v * 65536"
    using assms by (intro wrap32_small) simp_all
  then show ?thesis unfolding shl_def t by simp
qed

lemma num_rem_nat: "num_rem (Fin (real n)) (Fin 20) = Fin (real (n mod 20))"
proof -
  have "trunc (real n / 20) = int (n div 20)"
    using floor_divide_of_nat_eq [of n 20, where 'a = real] by (simp add: trunc_def)
  moreover have "real n - 20 * real (n div 20) = real (n mod 20)"
  proof -
    have "real (n mod 20) = real (n - 20 * (n div 20))"
      by (simp add: minus_mult_div_eq_mod)
    also have "\<dots> = real n - real (20 * (n div 20))"
      by (intro of_nat_diff) simp
    finally show ?thesis by simp
  qed
  ultimately show ?thesis by simp
qed

lemma fold_step_hex:
  assumes "v < 20" "is_hex c" "c \<noteq> []" "length c \<le> 4"
  shows "fold_step (Fin 20) (Fin (real v)) c = Fin (real ((v * 2 ^ 16 + hex_value c) mod 20))"
proof -
  have p: "parseInt16 c = Fin (real (hex_value c))"
    using assms by (intro parseInt16_hex) simp_all
  have "hex_value c < 16 ^ length c" by (rule hex_value_bound)
  also have "\<dots> \<le> 16 ^ 4" using assms(4) by (intro power_increasing) simp_all
  finally have h: "hex_value c < 65536" by simp
  have "\<bar>int v * 65536 + int (hex_value c)\<bar> < 2 ^ 53" using assms(1) h by simp
  then have "num_add (Fin (of_int (int v * 65536))) (Fin (of_int (int (hex_value c))))
             = Fin (of_int (int v * 65536 + int (hex_value c)))"
    by (rule num_add_int)
  also have "of_int (int v * 65536 + int (hex_value c)) = real (v * 2 ^ 16 + hex_value c)"
    by simp
  finally have a: "num_add (Fin (of_int (int v * 65536))) (Fin (real (hex_value c)))
             = Fin (real (v * 2 ^ 16 + hex_value c))"
    by simp
  show ?thesis
    unfolding fold_step_def shl16_small [OF assms(1)] p a by (rule num_rem_nat)
qed

lemma chunks4_nonempty: "xs \<noteq> [] \<Longrightarrow> chunks4 xs = take 4 xs # chunks4 (drop 4 xs)"
  by (cases xs) simp_all

lemma substring_window:
  "i < length s \<Longrightarrow> substring s (int i) (int i + 4) = take 4 (drop i s)"
  by (simp add: substring_def Let_def min_def max_def)

lemma hash_loop_chunks:
  "hash_loop s md (int i) v = foldl (fold_step md) v (chunks4 (drop i s))"
proof (induction "length s - i" arbitrary: i v rule: less_induct)
  case less
  show ?case
  proof (cases "i < length s")
    case True
    have ne: "drop i s \<noteq> []" using True by simp
    have "hash_loop s md (int i) v
          = hash_loop s md (int (i + 4)) (fold_step md v (take 4 (drop i s)))"
      using True by (subst hash_loop.simps) (simp add: substring_window add.commute)
    also have "\<dots> = foldl (fold_step md) (fold_step md v (take 4 (drop i s)))
                       (chunks4 (drop (i + 4) s))"
      using True by (intro less) simp
    also have "\<dots> = foldl (fold_step md) v (chunks4 (drop i s))"
      by (simp add: chunks4_nonempty [OF ne] add.commute)
    finally show ?thesis .
  next
    case False
    then show ?thesis by (subst hash_loop.simps) simp
  qed
qed

lemma rollIsHashDivisible_chunks:
  "rollIsHashDivisible s md = (foldl (fold_step md) (Fin 0) (spec_chunks s) = Fin 0)"
proof (cases "0 < length s mod 4")
  case True
  define r where "r = length s mod 4"
  have r: "0 < r" "r \<le> length s" "r < 4" using True by (simp_all add: r_def mod_le_divisor)
  have off: "int (length s) mod 4 = int r" by (simp add: r_def zmod_int)
  have sub: "substring s (int r - 4) (int r - 4 + 4) = take r s"
    using r by (simp add: substring_def Let_def min_def max_def)
  have "hash_loop s md (int r - 4) (Fin 0)
        = hash_loop s md (int r) (fold_step md (Fin 0) (take r s))"
    using r sub by (subst hash_loop.simps) simp
  also have "\<dots> = foldl (fold_step md) (fold_step md (Fin 0) (take r s)) (chunks4 (drop r s))"
    by (rule hash_loop_chunks)
  finally show ?thesis
    using r by (simp add: rollIsHashDivisible_def off spec_chunks_def r_def [symmetric])
next
  case False
  then have z: "length s mod 4 = 0" by simp
  then have off: "int (length s) mod 4 = 0" using zmod_int [of "length s" 4] by simp
  show ?thesis
    using hash_loop_chunks [of s md 0 "Fin 0"]
    by (simp add: rollIsHashDivisible_def off spec_chunks_def z)
qed

lemma chunks4_props:
  "c \<in> set (chunks4 xs) \<Longrightarrow> c \<noteq> [] \<and> length c \<le> 4 \<and> set c \<subseteq> set xs"
proof (induction xs rule: chunks4.induct)
  case 1
  then show ?case by simp
next
  case (2 x xs)
  from 2(2) have "c = take 4 (x # xs) \<or> c \<in> set (chunks4 (drop 4 (x # xs)))" by simp
  then show ?case
  proof
    assume "c = take 4 (x # xs)"
    then show ?thesis by (auto dest: in_set_takeD)
  next
    assume "c \<in> set (chunks4 (drop 4 (x # xs)))"
    then have "c \<noteq> [] \<and> length c \<le> 4 \<and> set c \<subseteq> set (drop 4 (x # xs))" by (rule 2(1))
    then show ?thesis using set_drop_subset [of 4 "x # xs"] by blast
  qed
qed

lemma is_hex_subset: "is_hex s \<Longrightarrow> set c \<subseteq> set s \<Longrightarrow> is_hex c"
  by (auto simp: is_hex_def list_all_iff)

lemma spec_chunks_props:
  assumes "is_hex s" "c \<in> set (spec_chunks s)"
  shows "is_hex c \<and> c \<noteq> [] \<and> length c \<le> 4"
proof -
  from assms(2) have "(0 < length s mod 4 \<and> c = take (length s mod 4) s)
                      \<or> c \<in> set (chunks4 (drop (length s mod 4) s))"
    by (auto simp: spec_chunks_def Let_def split: if_splits)
  then show ?thesis
  proof
    assume h: "0 < length s mod 4 \<and> c = take (length s mod 4) s"
    then have "s \<noteq> []" by auto
    moreover have "set c \<subseteq> set s" using h by (auto dest: in_set_takeD)
    moreover have "length s mod 4 < 4" by simp
    ultimately show ?thesis using h assms(1) by (auto intro: is_hex_subset)
  next
    assume "c \<in> set (chunks4 (drop (length s mod 4) s))"
    from chunks4_props [OF this]
    have "c \<noteq> []" "length c \<le> 4" "set c \<subseteq> set (drop (length s mod 4) s)" by simp_all
    moreover have "set (drop (length s mod 4) s) \<subseteq> set s" by (rule set_drop_subset)
    ultimately show ?thesis using assms(1) by (auto intro: is_hex_subset)
  qed
qed

lemma foldl_fold_step_hex:
  assumes "\<forall>c \<in> set cs. is_hex c \<and> c \<noteq> [] \<and> length c \<le> 4" "v < 20"
  shows "foldl (fold_step (Fin 20)) (Fin (real v)) cs
         = Fin (real (foldl (\<lambda>acc c. (acc * 2 ^ 16 + hex_value c) mod 20) v cs))"
  using assms
proof (induction cs arbitrary: v)
  case Nil
  show ?case by simp
next
  case (Cons c cs)
  have st: "fold_step (Fin 20) (Fin (real v)) c = Fin (real ((v * 2 ^ 16 + hex_value c) mod 20))"
    using Cons.prems by (intro fold_step_hex) simp_all
  have "foldl (fold_step (Fin 20)) (Fin (real ((v * 2 ^ 16 + hex_value c) mod 20))) cs
        = Fin (real (foldl (\<lambda>acc c. (acc * 2 ^ 16 + hex_value c) mod 20)
                       ((v * 2 ^ 16 + hex_value c) mod 20) cs))"
    using Cons.prems by (intro Cons.IH) simp_all
  then show ?case by (simp add: st)
qed

lemma rollIsHashDivisible_hex:
  assumes "is_hex s"
  shows "rollIsHashDivisible s (Fin 20) = (spec_fold 20 s = 0)"
proof -
  have "foldl (fold_step (Fin 20)) (Fin (real 0)) (spec_chunks s)
        = Fin (real (spec_fold 20 s))"
    unfolding spec_fold_def using spec_chunks_props [OF assms]
    by (intro foldl_fold_step_hex) simp_all
  then show ?thesis by (simp add: rollIsHashDivisible_chunks)
qed

section \<open>The quotient of rollGetOutcome in double arithmetic\<close>

lemma expo_le: "0 < x \<Longrightarrow> x < pow2 (j + 1) \<Longrightarrow> expo x \<le> j"
proof (rule ccontr)
  assume x: "0 < x" "x < pow2 (j + 1)" and "\<not> expo x \<le> j"
  then have "pow2 (j + 1) \<le> pow2 (expo x)" by (intro pow2_mono) simp
  then show False using expo_bounds [OF x(1)] x(2) by simp
qed

lemma expo_ge: "0 < x \<Longrightarrow> pow2 j \<le> x \<Longrightarrow> j \<le> expo x"
proof (rule ccontr)
  assume x: "0 < x" "pow2 j \<le> x" and "\<not> j \<le> expo x"
  then have "pow2 (expo x + 1) \<le> pow2 j" by (intro pow2_mono) simp
  then show False using expo_bounds [OF x(1)] x(2) by simp
qed

lemma on_grid:
  assumes "k \<le> j"
  shows "of_int u * pow2 j = of_int (u * 2 ^ nat (j - k)) * pow2 k"
proof -
  have "pow2 j = pow2 (j - k) * pow2 k" using pow2_add [of "j - k" k] by simp
  moreover have "pow2 (j - k) = 2 ^ nat (j - k)" using assms by (simp add: pow2_def)
  ultimately show ?thesis by simp
qed

lemma fl_window:
  assumes "2 ^ 58 \<le> x" "x < 2 ^ 59"
  shows "fl x = Fin (round_to 6 x)"
proof -
  have "(0::real) < 2 ^ 58" by simp
  then have x0: "0 < x" using assms(1) by linarith
  have p58: "pow2 58 = 2 ^ 58" and p59: "pow2 (58 + 1) = 2 ^ 59" and p6: "pow2 6 = 64"
    by (simp_all add: pow2_def)
  have "expo x = 58"
    using x0 assms by (intro expo_unique) (simp_all only: p58 p59)
  then have k: "ulp_exp x = 6" using x0 by (simp add: ulp_exp_def)
  have "round_to 6 x \<le> of_int (2 ^ 53) * pow2 6"
    using assms(2) by (intro round_to_le) (simp add: p6)
  then have hi: "round_to 6 x \<le> 2 ^ 59" by (simp add: p6)
  have "of_int (2 ^ 52) * pow2 6 \<le> round_to 6 x"
    using assms(1) by (intro round_to_ge) (simp add: p6)
  then have lo: "2 ^ 58 \<le> round_to 6 x" by (simp add: p6)
  have "\<bar>round_to 6 x\<bar> < 2 ^ 1024"
  proof -
    have "(2::real) ^ 59 < 2 ^ 1024" by (intro power_strict_increasing) simp_all
    moreover have "(0::real) \<le> 2 ^ 58" by simp
    then have "0 \<le> round_to 6 x" using lo by linarith
    ultimately show ?thesis using hi by simp
  qed
  then show ?thesis using fl_finite [of x] x0 k by simp
qed

lemma fl_between:
  assumes "100 \<le> q" "q \<le> of_int u * 64" "of_int u * 64 < (2::real) ^ 59"
  shows "\<exists>r. fl q = Fin r \<and> 100 \<le> r \<and> r \<le> of_int u * 64"
proof -
  have q0: "0 < q" using assms(1) by simp
  have p6: "pow2 6 = 64" by (simp add: pow2_def)
  have "pow2 6 \<le> q" using assms(1) by (simp add: p6)
  then have e6: "6 \<le> expo q" by (rule expo_ge [OF q0])
  have "q < pow2 (58 + 1)" using assms(2,3) by (simp add: pow2_def)
  then have e58: "expo q \<le> 58" by (rule expo_le [OF q0])
  define k where "k = expo q - 52"
  have k: "ulp_exp q = k" using q0 e6 by (simp add: ulp_exp_def k_def)
  have kr: "- 46 \<le> k" "k \<le> 6" using e6 e58 by (simp_all add: k_def)
  have g6: "of_int u * 64 = of_int (u * 2 ^ nat (6 - k)) * pow2 k"
    using on_grid [OF kr(2), of u] by (simp only: p6)
  have "q \<le> of_int (u * 2 ^ nat (6 - k)) * pow2 k" using assms(2) by (simp only: g6)
  then have "round_to k q \<le> of_int (u * 2 ^ nat (6 - k)) * pow2 k" by (rule round_to_le)
  then have hi: "round_to k q \<le> of_int u * 64" by (simp only: g6)
  have lo: "100 \<le> round_to k q"
  proof (cases "k \<le> 2")
    case True
    have "of_int 25 * pow2 2 = of_int (25 * 2 ^ nat (2 - k)) * pow2 k"
      using True by (rule on_grid)
    moreover have "of_int 25 * pow2 2 = 100" by (simp add: pow2_def)
    ultimately have g: "of_int (25 * 2 ^ nat (2 - k)) * pow2 k = 100" by (simp only:)
    have "of_int (25 * 2 ^ nat (2 - k)) * pow2 k \<le> q" using assms(1) by (simp only: g)
    then have "of_int (25 * 2 ^ nat (2 - k)) * pow2 k \<le> round_to k q" by (rule round_to_ge)
    then show ?thesis by (simp only: g)
  next
    case False
    have "pow2 (expo q) = pow2 52 * pow2 k" using pow2_add [of 52 k] by (simp add: k_def)
    moreover have "pow2 52 = of_int (2 ^ 52)" by (simp add: pow2_def)
    ultimately have g: "of_int (2 ^ 52) * pow2 k = pow2 (expo q)" by (simp only:)
    have "pow2 (expo q) \<le> q" using expo_bounds [OF q0] by simp
    then have "of_int (2 ^ 52) * pow2 k \<le> q" by (simp only: g)
    then have "of_int (2 ^ 52) * pow2 k \<le> round_to k q" by (rule round_to_ge)
    then have "pow2 (expo q) \<le> round_to k q" by (simp only: g)
    moreover have "pow2 55 \<le> pow2 (expo q)" using False by (intro pow2_mono) (simp add: k_def)
    moreover have "(100::real) \<le> pow2 55" by (simp add: pow2_def)
    ultimately show ?thesis by linarith
  qed
  have "\<bar>round_to k q\<bar> < 2 ^ 1024"
  proof -
    have "(2::real) ^ 59 < 2 ^ 1024" by (intro power_strict_increasing) simp_all
    then show ?thesis using lo hi assms(3) by simp
  qed
  then have "fl q = Fin (round_to k q)" using fl_finite [of q] q0 k by simp
  then show ?thesis using lo hi by simp
qed

lemma slice_prefix: "slice s 0 13 = take 13 s"
  by (simp add: slice_def Let_def min_def)

lemma rollIsHashDivisible_empty: "rollIsHashDivisible [] md"
  by (simp add: rollIsHashDivisible_def hash_loop.simps)

lemma is_hex_take: "is_hex s \<Longrightarrow> is_hex (take n s)"
  by (rule is_hex_subset) (auto dest: in_set_takeD)

lemma leading_digits:
  assumes "is_hex s" "s \<noteq> []"
  shows "parseInt16 (slice s 0 13) = Fin (real (hex_value (take 13 s)))"
    and "hex_value (take 13 s) < 2 ^ 52"
proof -
  have ne: "take 13 s \<noteq> []" using assms(2) by simp
  show "parseInt16 (slice s 0 13) = Fin (real (hex_value (take 13 s)))"
    unfolding slice_prefix using is_hex_take [OF assms(1)] ne by (intro parseInt16_hex) simp_all
  have "hex_value (take 13 s) < 16 ^ length (take 13 s)" by (rule hex_value_bound)
  also have "\<dots> \<le> 16 ^ 13" by (intro power_increasing) simp_all
  finally show "hex_value (take 13 s) < 2 ^ 52" by simp
qed

text \<open>The quotient for a value \<open>h\<close> of the leading digits, in double arithmetic.\<close>

lemma quotient_bounds:
  assumes "h < (2::nat) ^ 52"
  shows "\<exists>n. num_floor (num_div (num_sub (num_mul (Fin 100) (Fin (2 ^ 52))) (Fin (real h)))
                                 (num_sub (Fin (2 ^ 52)) (Fin (real h))))
             = Fin (of_int n) \<and> 100 \<le> n \<and> n \<le> 99 * 2 ^ 52"
proof -
  define e :: real where "e = 2 ^ 52"
  define x where "x = 100 * e - real h"
  define d where "d = e - real h"
  have hr: "real h < e" "0 \<le> real h"
    using assms of_nat_less_iff [of h "2 ^ 52", where 'a = real] by (simp_all add: e_def)
  have p6: "pow2 6 = 64" by (simp add: pow2_def)
  have m: "num_mul (Fin 100) (Fin (2 ^ 52)) = Fin (100 * e)"
    by (simp add: e_def fl_eval)
  have xr: "2 ^ 58 \<le> x" "x < 2 ^ 59" "x \<le> 100 * e"
    using hr by (simp_all add: x_def e_def)
  define N where "N = round_to 6 x"
  have s1: "num_sub (Fin (100 * e)) (Fin (real h)) = Fin N"
    using fl_window [OF xr(1,2)] by (simp add: num_sub_def x_def N_def)
  have "fl (real_of_int (2 ^ 52 - int h)) = Fin (real_of_int (2 ^ 52 - int h))"
    using assms by (intro fl_of_int) simp
  then have s2: "num_sub (Fin (2 ^ 52)) (Fin (real h)) = Fin d"
    by (simp add: num_sub_def d_def e_def)
  have d1: "1 \<le> d"
  proof -
    have "h + 1 \<le> 2 ^ 52" using assms by simp
    then have "real (h + 1) \<le> real (2 ^ 52)" by (simp only: of_nat_le_iff)
    then show ?thesis by (simp add: d_def e_def)
  qed
  have dv: "num_div (Fin N) (Fin d) = fl (N / d)" using d1 by simp
  have Nerr: "\<bar>N - x\<bar> \<le> 32" using round_to_err [of 6 x] by (simp add: N_def p6)
  have Nhi: "N \<le> 100 * e"
  proof -
    have "x \<le> of_int (25 * 2 ^ 48) * pow2 6" using xr(3) by (simp add: p6 e_def)
    then have "round_to 6 x \<le> of_int (25 * 2 ^ 48) * pow2 6" by (rule round_to_le)
    then show ?thesis by (simp add: N_def p6 e_def)
  qed
  have lo: "100 \<le> N / d"
  proof (cases "h = 0")
    case True
    then have "x = of_int (25 * 2 ^ 48) * pow2 6" by (simp add: x_def e_def p6)
    then have "N = x" unfolding N_def by (simp only: round_to_exact)
    then show ?thesis using True by (simp add: x_def d_def e_def)
  next
    case False
    then have "1 \<le> real h" by simp
    then have "100 * d \<le> x - 32" by (simp add: x_def d_def)
    then have "100 * d \<le> N" using Nerr by linarith
    then show ?thesis using d1 by (simp add: field_simps)
  qed
  have "\<exists>u. N / d \<le> of_int u * 64 \<and> of_int u * 64 \<le> 99 * e"
  proof (cases "d < 2")
    case True
    have "real_of_int (2 ^ 52 - int h) < real_of_int 2"
      using True by (simp add: d_def e_def)
    then have "2 ^ 52 - int h < 2" by (simp only: of_int_less_iff)
    then have h: "h = 2 ^ 52 - 1" using assms by simp
    have dd: "d = 1" by (simp add: d_def e_def h)
    have "N = 99 * e"
      by (simp add: N_def x_def e_def h round_to_def round_half_even_def pow2_def Let_def)
    then have "N / d \<le> of_int (99 * 2 ^ 46) * 64 \<and> of_int (99 * 2 ^ 46) * 64 \<le> 99 * e"
      by (simp add: dd e_def)
    then show ?thesis by blast
  next
    case False
    then have "N / d \<le> N / 2"
      using d1 Nhi lo by (intro divide_left_mono) (simp_all add: field_simps)
    also have "\<dots> \<le> 50 * e" using Nhi by simp
    finally have "N / d \<le> of_int (25 * 2 ^ 47) * 64 \<and> of_int (25 * 2 ^ 47) * 64 \<le> 99 * e"
      by (simp add: e_def)
    then show ?thesis by blast
  qed
  then obtain u where u: "N / d \<le> of_int u * 64" "of_int u * 64 \<le> 99 * e" by blast
  have "of_int u * 64 < (2::real) ^ 59" using u(2) by (simp add: e_def)
  from fl_between [OF lo u(1) this]
  obtain r where r: "fl (N / d) = Fin r" "100 \<le> r" "r \<le> of_int u * 64" by blast
  have fl1: "100 \<le> \<lfloor>r\<rfloor>" using r(2) by (simp add: le_floor_iff)
  have "r \<le> real_of_int (99 * 2 ^ 52)" using r(3) u(2) by (simp add: e_def)
  then have "real_of_int \<lfloor>r\<rfloor> \<le> real_of_int (99 * 2 ^ 52)"
    using of_int_floor_le [of r] by linarith
  then have fl2: "\<lfloor>r\<rfloor> \<le> 99 * 2 ^ 52" by (simp only: of_int_le_iff)
  have "num_floor (num_div (num_sub (num_mul (Fin 100) (Fin (2 ^ 52))) (Fin (real h)))
                           (num_sub (Fin (2 ^ 52)) (Fin (real h))))
        = Fin (of_int \<lfloor>r\<rfloor>)"
    unfolding m s1 s2 dv r(1) by simp
  then show ?thesis using fl1 fl2 by blast
qed

section \<open>The outcome: the claims\<close>

lemmas hex_eval = is_hex_def spec_fold_def spec_chunks_def hex_value_def digit_step_def
  hex_digit_def Let_def

text \<open>
  C1, as stated: whenever the fold is not 0 the outcome lies in \<open>[0, 100)\<close>. For the
  hash below the fold ends at 9, the leading 13 digits are \<open>h = 2^51\<close>, and the outcome is
  \<open>(100 * 2^52 - 2^51) / 2^51 = 199\<close>.
\<close>

theorem outcome_199_outside_range:
  "is_hex ''8000000000000000000000000000000000000000000000000000000000000001''
   \<and> \<not> rollIsHashDivisible
         ''8000000000000000000000000000000000000000000000000000000000000001'' house_mod
   \<and> rollGetOutcome ''8000000000000000000000000000000000000000000000000000000000000001''
       = Fin 199
   \<and> \<not> num_le (rollGetOutcome
                   ''8000000000000000000000000000000000000000000000000000000000000001'')
                (Fin 100)"
proof -
  let ?s = "''8000000000000000000000000000000000000000000000000000000000000001''"
  have hx: "is_hex ?s" by (simp add: hex_eval)
  have nd: "\<not> rollIsHashDivisible ?s house_mod"
    unfolding house_mod_eq rollIsHashDivisible_hex [OF hx] by (simp add: hex_eval)
  have h: "parseInt16 (slice ?s 0 13) = Fin (2 ^ 51)"
    using leading_digits(1) [OF hx] by (simp add: hex_eval)
  have "rollGetOutcome ?s = Fin 199"
    using nd by (simp add: rollGetOutcome_def h num_sub_def fl_eval)
  then show ?thesis using hx nd by (simp add: num_le_def)
qed

text \<open>
  C1, amended: for every hexadecimal hash on which the fold does not yield 0,
  \<open>rollGetOutcome\<close> returns \<open>Math.floor\<close> of the quotient \<open>(100 * e - h) / (e - h)\<close>
  evaluated in double arithmetic, where \<open>h\<close> is the value of the leading 13 digits and
  \<open>e = 2^52\<close>; the result is an integer between 100 and \<open>99 * 2^52\<close>.
\<close>

theorem outcome_quotient_at_least_100:
  assumes "is_hex s" "\<not> rollIsHashDivisible s house_mod"
  shows "rollGetOutcome s
           = num_floor (num_div (num_sub (num_mul (Fin 100) (Fin (2 ^ 52)))
                                         (Fin (real (hex_value (take 13 s)))))
                                (num_sub (Fin (2 ^ 52)) (Fin (real (hex_value (take 13 s))))))
         \<and> (\<exists>n. rollGetOutcome s = Fin (of_int n) \<and> 100 \<le> n \<and> n \<le> 99 * 2 ^ 52)"
proof -
  have ne: "s \<noteq> []" using assms(2) rollIsHashDivisible_empty by auto
  note ld = leading_digits [OF assms(1) ne]
  have eq: "rollGetOutcome s
           = num_floor (num_div (num_sub (num_mul (Fin 100) (Fin (2 ^ 52)))
                                         (Fin (real (hex_value (take 13 s)))))
                                (num_sub (Fin (2 ^ 52)) (Fin (real (hex_value (take 13 s))))))"
    using assms(2) by (simp add: rollGetOutcome_def ld(1) Let_def)
  show ?thesis using eq quotient_bounds [OF ld(2)] by simp
qed

theorem outcome_quotient_at_least_100_witness:
  "is_hex ''4000000000000000000000000000000000000000000000000000000000000001''
   \<and> \<not> rollIsHashDivisible
         ''4000000000000000000000000000000000000000000000000000000000000001'' house_mod
   \<and> rollGetOutcome ''4000000000000000000000000000000000000000000000000000000000000001''
       = Fin 133"
proof -
  let ?s = "''4000000000000000000000000000000000000000000000000000000000000001''"
  have hx: "is_hex ?s" by (simp add: hex_eval)
  have nd: "\<not> rollIsHashDivisible ?s house_mod"
    unfolding house_mod_eq rollIsHashDivisible_hex [OF hx] by (simp add: hex_eval)
  have hv: "real (hex_value (take 13 ?s)) = 2 ^ 50" by (simp add: hex_eval)
  show ?thesis
    using outcome_quotient_at_least_100 [OF hx nd] hx nd
    unfolding hv by (simp add: num_sub_def fl_eval)
qed

text \<open>
  The quotient is computed in double arithmetic, not exactly: for the hash of 64 digits
  \<open>f\<close> the exact quotient is \<open>99 * 2^52 + 1\<close>, and the code returns \<open>99 * 2^52\<close>.
\<close>

lemma outcome_not_the_exact_quotient:
  "rollGetOutcome ''ffffffffffffffffffffffffffffffffffffffffffffffffffffffffffffffff''
     = Fin (99 * 2 ^ 52)
   \<and> \<lfloor>(100 * 2 ^ 52 - (2 ^ 52 - 1)) / (2 ^ 52 - (2 ^ 52 - 1)) :: real\<rfloor> = 99 * 2 ^ 52 + 1"
proof -
  let ?s = "''ffffffffffffffffffffffffffffffffffffffffffffffffffffffffffffffff''"
  have hx: "is_hex ?s" by (simp add: hex_eval)
  have nd: "\<not> rollIsHashDivisible ?s house_mod"
    unfolding house_mod_eq rollIsHashDivisible_hex [OF hx] by (simp add: hex_eval)
  have h: "parseInt16 (slice ?s 0 13) = Fin (2 ^ 52 - 1)"
    using leading_digits(1) [OF hx] by (simp add: hex_eval)
  have "rollGetOutcome ?s = Fin (99 * 2 ^ 52)"
    using nd by (simp add: rollGetOutcome_def h num_sub_def fl_eval)
  then show ?thesis by simp
qed

text \<open>
  C2: on a hexadecimal hash the loop of \<open>rollIsHashDivisible\<close> computes the fold of the
  specification with \<open>M = 20\<close>; \<open>rollGetOutcome\<close> returns 100 when that fold ends at 0,
  and only then does it take that branch: otherwise its result is the quotient branch.
\<close>

theorem outcome_100_iff_fold_zero:
  assumes "is_hex s"
  shows "(rollIsHashDivisible s house_mod \<longleftrightarrow> spec_fold 20 s = 0)
         \<and> (spec_fold 20 s = 0 \<longrightarrow> rollGetOutcome s = Fin 100)
         \<and> (spec_fold 20 s \<noteq> 0 \<longrightarrow>
              rollGetOutcome s
                = num_floor (num_div (num_sub (num_mul (Fin 100) (Fin (2 ^ 52)))
                                              (parseInt16 (slice s 0 13)))
                                     (num_sub (Fin (2 ^ 52)) (parseInt16 (slice s 0 13)))))"
  using rollIsHashDivisible_hex [OF assms]
  by (simp add: house_mod_eq rollGetOutcome_def Let_def)

theorem outcome_100_iff_fold_zero_witness:
  "is_hex ''800000000000000000000000000000000000000000000000000000000000000c''
   \<and> spec_fold 20 ''800000000000000000000000000000000000000000000000000000000000000c'' = 0
   \<and> rollIsHashDivisible
        ''800000000000000000000000000000000000000000000000000000000000000c'' house_mod
   \<and> rollGetOutcome ''800000000000000000000000000000000000000000000000000000000000000c''
       = Fin 100
   \<and> is_hex ''800000001''
   \<and> spec_fold 20 ''800000001'' = 9
   \<and> \<not> rollIsHashDivisible ''800000001'' house_mod"
proof -
  let ?s = "''800000000000000000000000000000000000000000000000000000000000000c''"
  have hx: "is_hex ?s" by (simp add: hex_eval)
  have z: "spec_fold 20 ?s = 0" by (simp add: hex_eval)
  have hx2: "is_hex ''800000001''" by (simp add: hex_eval)
  have z2: "spec_fold 20 ''800000001'' = 9" by (simp add: hex_eval)
  show ?thesis
    using outcome_100_iff_fold_zero [OF hx] outcome_100_iff_fold_zero [OF hx2] hx z hx2 z2
    by simp
qed

section \<open>Round creation: the claims\<close>

lemma hash_findByIdAndUpdate: "map hash (findByIdAndUpdate i ss) = map hash ss"
  by (induction ss) simp_all

text \<open>
  C3, as stated: seed consumption and round creation are one atomic unit. With one seed
  in state \<open>created\<close>, a rejected \<open>RollGame.create\<close> and a successful update of the seed,
  the call fails and leaves the seed \<open>completed\<close> with no game stored.
\<close>

theorem seed_completed_without_game:
  "rollGenerateGame id
     \<lparr> findOne_rejects = False, seed_create_rejects = False, game_create_rejects = True,
       seed_update_rejects = False, populate_rejects = False,
       randomBytes1 = [], randomBytes2 = [], fresh_seed_id = 2, fresh_game_id = 7 \<rparr>
     \<lparr> seeds = [\<lparr> seed_id = 1, seedServer = ''5eed'', hash = ''c0de'', seed_state = ''created'' \<rparr>],
       games = [] \<rparr>
   = (Inl DbError,
      \<lparr> seeds = [\<lparr> seed_id = 1, seedServer = ''5eed'', hash = ''c0de'', seed_state = ''completed'' \<rparr>],
        games = [] \<rparr>)"
  by (simp add: rollGenerateGame_def findOne_created_def)

text \<open>
  C3, amended: the call fails exactly when one of the database operations it issues
  rejects. The two writes are independent: once a seed is at hand, the game is stored
  exactly when its creation does not reject, and the seed is marked \<open>completed\<close> exactly
  when its update does not reject, whatever happens to the other write. The seed at hand
  is the one found in state \<open>created\<close>, or else the one the call has just created.
\<close>

theorem round_creation_writes_independent:
  "(isl (fst (rollGenerateGame sha256 c db)) \<longleftrightarrow>
      findOne_rejects c
      \<or> (findOne_created (seeds db) = None \<and> seed_create_rejects c)
      \<or> game_create_rejects c \<or> seed_update_rejects c \<or> populate_rejects c)
   \<and> (\<not> findOne_rejects c \<and> findOne_created (seeds db) = Some s \<longrightarrow>
        games (snd (rollGenerateGame sha256 c db))
          = (if game_create_rejects c then games db
             else games db @ [\<lparr> game_id = fresh_game_id c, fair_seed = seed_id s,
                                game_state = ''created'' \<rparr>])
        \<and> seeds (snd (rollGenerateGame sha256 c db))
          = (if seed_update_rejects c then seeds db
             else findByIdAndUpdate (seed_id s) (seeds db)))
   \<and> (\<not> findOne_rejects c \<and> findOne_created (seeds db) = None \<and> \<not> seed_create_rejects c \<longrightarrow>
        games (snd (rollGenerateGame sha256 c db))
          = (if game_create_rejects c then games db
             else games db @ [\<lparr> game_id = fresh_game_id c, fair_seed = fresh_seed_id c,
                                game_state = ''created'' \<rparr>])
        \<and> seeds (snd (rollGenerateGame sha256 c db))
          = (if seed_update_rejects c then seeds db @ [newSeed sha256 c]
             else findByIdAndUpdate (fresh_seed_id c) (seeds db @ [newSeed sha256 c])))"
  by (auto simp: rollGenerateGame_def Let_def newSeed_def split: option.splits)

theorem round_creation_writes_independent_witness:
  "findOne_created [\<lparr> seed_id = 1, seedServer = ''5eed'', hash = ''c0de'', seed_state = ''created'' \<rparr>]
     = Some \<lparr> seed_id = 1, seedServer = ''5eed'', hash = ''c0de'', seed_state = ''created'' \<rparr>
   \<and> rollGenerateGame id
        \<lparr> findOne_rejects = False, seed_create_rejects = False, game_create_rejects = False,
          seed_update_rejects = True, populate_rejects = False,
          randomBytes1 = [], randomBytes2 = [], fresh_seed_id = 2, fresh_game_id = 7 \<rparr>
        \<lparr> seeds = [\<lparr> seed_id = 1, seedServer = ''5eed'', hash = ''c0de'', seed_state = ''created'' \<rparr>],
          games = [] \<rparr>
     = (Inl DbError,
        \<lparr> seeds = [\<lparr> seed_id = 1, seedServer = ''5eed'', hash = ''c0de'', seed_state = ''created'' \<rparr>],
          games = [\<lparr> game_id = 7, fair_seed = 1, game_state = ''created'' \<rparr>] \<rparr>)
   \<and> findOne_created [] = None
   \<and> rollGenerateGame id
        \<lparr> findOne_rejects = False, seed_create_rejects = False, game_create_rejects = True,
          seed_update_rejects = False, populate_rejects = False,
          randomBytes1 = [], randomBytes2 = [], fresh_seed_id = 2, fresh_game_id = 7 \<rparr>
        \<lparr> seeds = [], games = [] \<rparr>
     = (Inl DbError,
        \<lparr> seeds = [\<lparr> seed_id = 2, seedServer = [], hash = [], seed_state = ''completed'' \<rparr>],
          games = [] \<rparr>)"
proof -
  let ?seed = "\<lparr> seed_id = 1, seedServer = ''5eed'', hash = ''c0de'', seed_state = ''created'' \<rparr>"
  let ?c1 = "\<lparr> findOne_rejects = False, seed_create_rejects = False, game_create_rejects = False,
          seed_update_rejects = True, populate_rejects = False,
          randomBytes1 = [], randomBytes2 = [], fresh_seed_id = 2, fresh_game_id = 7 \<rparr>"
  let ?c2 = "\<lparr> findOne_rejects = False, seed_create_rejects = False, game_create_rejects = True,
          seed_update_rejects = False, populate_rejects = False,
          randomBytes1 = [], randomBytes2 = [], fresh_seed_id = 2, fresh_game_id = 7 \<rparr>"
  have f1: "findOne_created [?seed] = Some ?seed" and f2: "findOne_created [] = None"
    by (simp_all add: findOne_created_def)
  have n: "newSeed id ?c2 = \<lparr> seed_id = 2, seedServer = [], hash = [], seed_state = ''created'' \<rparr>"
    by (simp add: newSeed_def toHex_def)
  show ?thesis
    using round_creation_writes_independent
            [of id ?c1 "\<lparr> seeds = [?seed], games = [] \<rparr>" ?seed]
          round_creation_writes_independent
            [of id ?c2 "\<lparr> seeds = [], games = [] \<rparr>" ?seed] f1 f2
    by (simp add: n rollGenerateGame_def)
qed

text \<open>
  C5: the commitments stored after a call do not depend on the bytes drawn for the
  secret: two calls that differ in that draw alone store the same \<open>hash\<close> fields. When
  the call creates a seed, the commitments stored are the earlier ones followed by the
  hexadecimal SHA-256 digest of the second draw, and the secret stored is the
  hexadecimal text of the first draw.
\<close>

theorem commitment_independent_of_secret:
  "map hash (seeds (snd (rollGenerateGame sha256 (c\<lparr> randomBytes1 := a \<rparr>) db)))
     = map hash (seeds (snd (rollGenerateGame sha256 (c\<lparr> randomBytes1 := b \<rparr>) db)))
   \<and> (\<not> findOne_rejects c \<and> findOne_created (seeds db) = None \<and> \<not> seed_create_rejects c \<longrightarrow>
        seeds (snd (rollGenerateGame sha256 c db))
          = (if seed_update_rejects c then seeds db @ [newSeed sha256 c]
             else findByIdAndUpdate (fresh_seed_id c) (seeds db @ [newSeed sha256 c]))
        \<and> hash (newSeed sha256 c) = toHex (sha256 (randomBytes2 c))
        \<and> seedServer (newSeed sha256 c) = toHex (randomBytes1 c)
        \<and> map hash (seeds (snd (rollGenerateGame sha256 c db)))
          = map hash (seeds db) @ [toHex (sha256 (randomBytes2 c))])"
  by (auto simp: rollGenerateGame_def Let_def newSeed_def hash_findByIdAndUpdate
           split: option.splits)

theorem commitment_independent_of_secret_witness:
  "\<not> findOne_rejects
       \<lparr> findOne_rejects = False, seed_create_rejects = False, game_create_rejects = False,
         seed_update_rejects = False, populate_rejects = False,
         randomBytes1 = ''ab'', randomBytes2 = ''cd'', fresh_seed_id = 2, fresh_game_id = 7 \<rparr>
   \<and> findOne_created (seeds \<lparr> seeds = [], games = [] \<rparr>) = None
   \<and> rollGenerateGame rev
        \<lparr> findOne_rejects = False, seed_create_rejects = False, game_create_rejects = False,
          seed_update_rejects = False, populate_rejects = False,
          randomBytes1 = ''ab'', randomBytes2 = ''cd'', fresh_seed_id = 2, fresh_game_id = 7 \<rparr>
        \<lparr> seeds = [], games = [] \<rparr>
     = (Inr \<lparr> view_id = 7, view_state = ''created'', view_seed = Some (2, ''6162'', ''6463'') \<rparr>,
        \<lparr> seeds = [\<lparr> seed_id = 2, seedServer = ''6162'', hash = ''6463'',
                     seed_state = ''completed'' \<rparr>],
          games = [\<lparr> game_id = 7, fair_seed = 2, game_state = ''created'' \<rparr>] \<rparr>)
   \<and> map hash (seeds (snd (rollGenerateGame rev
        \<lparr> findOne_rejects = False, seed_create_rejects = False, game_create_rejects = False,
          seed_update_rejects = False, populate_rejects = False,
          randomBytes1 = ''zz'', randomBytes2 = ''cd'', fresh_seed_id = 2, fresh_game_id = 7 \<rparr>
        \<lparr> seeds = [], games = [] \<rparr>))) = [''6463'']"
proof -
  let ?c = "\<lparr> findOne_rejects = False, seed_create_rejects = False, game_create_rejects = False,
          seed_update_rejects = False, populate_rejects = False,
          randomBytes1 = ''ab'', randomBytes2 = ''cd'', fresh_seed_id = 2, fresh_game_id = 7 \<rparr>"
  have f: "findOne_created (seeds \<lparr> seeds = [], games = [] \<rparr>) = None"
    by (simp add: findOne_created_def)
  have r: "rollGenerateGame rev ?c \<lparr> seeds = [], games = [] \<rparr>
     = (Inr \<lparr> view_id = 7, view_state = ''created'', view_seed = Some (2, ''6162'', ''6463'') \<rparr>,
        \<lparr> seeds = [\<lparr> seed_id = 2, seedServer = ''6162'', hash = ''6463'',
                     seed_state = ''completed'' \<rparr>],
          games = [\<lparr> game_id = 7, fair_seed = 2, game_state = ''created'' \<rparr>] \<rparr>)"
    by (simp add: rollGenerateGame_def findOne_created_def newSeed_def toHex_def hex_char_def)
  show ?thesis
    using commitment_independent_of_secret
      [where ?sha256.0 = rev and c = ?c and a = "''zz''" and b = "''ab''"
         and db = "\<lparr> seeds = [], games = [] \<rparr>"] f r
    by simp
qed

section \<open>View sanitizer: the claims\<close>

lemma clone_eq_DStr: "clone v = DStr x \<longleftrightarrow> v = DStr x"
  by (cases v) (auto split: number.splits)

lemma clone_eq_DUndefined: "clone v = DUndefined \<longleftrightarrow> v = DUndefined"
  by (cases v) (auto split: number.splits)

lemma map_of_cloned:
  assumes "distinct (map fst kvs)"
  shows "map_of (filter (\<lambda>kv. snd kv \<noteq> DUndefined) (map (map_prod id clone) kvs)) k
         = (case map_of kvs k of
              None \<Rightarrow> None
            | Some v \<Rightarrow> if v = DUndefined then None else Some (clone v))"
  using assms
proof (induction kvs)
  case Nil
  show ?case by simp
next
  case (Cons kv kvs)
  obtain k' v' where kv: "kv = (k', v')" by (cases kv)
  have d: "distinct (map fst kvs)" and nk: "k' \<notin> fst ` set kvs" using Cons.prems by (auto simp: kv)
  have none: "map_of kvs k' = None" using nk by (simp add: map_of_eq_None_iff)
  show ?case
  proof (cases "k = k'")
    case True
    show ?thesis
      using Cons.IH [OF d] none by (simp add: kv True clone_eq_DUndefined)
  next
    case False
    show ?thesis
      using Cons.IH [OF d] False by (simp add: kv)
  qed
qed

lemma read_prop_clone:
  "distinct (map fst kvs) \<Longrightarrow> read_prop (clone (DObj kvs)) k = clone (read_prop (DObj kvs) k)"
  by (simp add: read_prop_def map_of_cloned split: option.splits)

lemma has_prop_clone:
  "has_prop (clone (DObj kvs)) k \<longleftrightarrow> (\<exists>v. (k, v) \<in> set kvs \<and> v \<noteq> DUndefined)"
  by (force simp: has_prop_def clone_eq_DUndefined image_iff)

lemma has_prop_delete: "has_prop (delete_prop j v) k \<longleftrightarrow> has_prop v k \<and> j \<noteq> k"
  by (cases v) (auto simp: has_prop_def delete_prop_def)

text \<open>
  C8: for a round object whose state is neither \<open>rolling\<close> nor \<open>completed\<close>,
  \<open>rollSanitizeGame\<close> returns a copy with no \<open>outcome\<close> and no \<open>fair\<close> field; for a round in
  state \<open>completed\<close> (or \<open>rolling\<close>) it returns the plain copy, in which the \<open>outcome\<close> and
  \<open>fair\<close> fields of the round are present.
\<close>

theorem sanitize_game_fields:
  assumes "distinct (map fst kvs)"
  shows "(read_prop (DObj kvs) ''state'' \<noteq> DStr ''rolling''
            \<and> read_prop (DObj kvs) ''state'' \<noteq> DStr ''completed'' \<longrightarrow>
          (\<exists>r. rollSanitizeGame (DObj kvs) = Inr r
                \<and> \<not> has_prop r ''outcome'' \<and> \<not> has_prop r ''fair''))
         \<and> (read_prop (DObj kvs) ''state'' = DStr ''completed''
              \<or> read_prop (DObj kvs) ''state'' = DStr ''rolling'' \<longrightarrow>
             rollSanitizeGame (DObj kvs) = Inr (clone (DObj kvs))
             \<and> (map_of kvs ''outcome'' = Some out \<and> out \<noteq> DUndefined \<longrightarrow>
                  has_prop (clone (DObj kvs)) ''outcome''
                  \<and> read_prop (clone (DObj kvs)) ''outcome'' = clone out)
             \<and> (map_of kvs ''fair'' = Some f \<and> f \<noteq> DUndefined \<longrightarrow>
                  has_prop (clone (DObj kvs)) ''fair''
                  \<and> read_prop (clone (DObj kvs)) ''fair'' = clone f))"
proof -
  define cl where "cl = clone (DObj kvs)"
  have st: "read_prop cl ''state'' = clone (read_prop (DObj kvs) ''state'')"
    unfolding cl_def using assms by (rule read_prop_clone)
  have nn: "cl \<noteq> DUndefined" "cl \<noteq> DNull" by (simp_all add: cl_def)
  have rt: "json_roundtrip (DObj kvs) = Inr cl"
    by (simp add: json_roundtrip_def cl_def)
  have gp: "get_prop cl ''state'' = Inr (clone (read_prop (DObj kvs) ''state''))"
    by (simp add: get_prop_def nn st)
  have a: "\<exists>r. rollSanitizeGame (DObj kvs) = Inr r
                \<and> \<not> has_prop r ''outcome'' \<and> \<not> has_prop r ''fair''"
    if "read_prop (DObj kvs) ''state'' \<noteq> DStr ''rolling''
        \<and> read_prop (DObj kvs) ''state'' \<noteq> DStr ''completed''"
  proof -
    have "rollSanitizeGame (DObj kvs)
          = Inr (delete_prop ''fair'' (delete_prop ''outcome'' cl))"
      using that by (simp add: rollSanitizeGame_def rt gp clone_eq_DStr)
    then show ?thesis by (simp add: has_prop_delete)
  qed
  have b: "rollSanitizeGame (DObj kvs) = Inr cl"
    if "read_prop (DObj kvs) ''state'' = DStr ''completed''
        \<or> read_prop (DObj kvs) ''state'' = DStr ''rolling''"
    using that by (auto simp: rollSanitizeGame_def rt gp)
  have c: "has_prop cl k \<and> read_prop cl k = clone v"
    if "map_of kvs k = Some v \<and> v \<noteq> DUndefined" for k v
  proof -
    have "(k, v) \<in> set kvs" using that by (auto dest: map_of_SomeD)
    then have "\<exists>w. (k, w) \<in> set kvs \<and> w \<noteq> DUndefined" using that by blast
    then have "has_prop cl k" unfolding cl_def by (simp only: has_prop_clone)
    moreover have "read_prop (DObj kvs) k = v" using that by (simp add: read_prop_def)
    then have "read_prop cl k = clone v"
      unfolding cl_def using read_prop_clone [OF assms, of k] by simp
    ultimately show ?thesis by simp
  qed
  show ?thesis using a b c unfolding cl_def by blast
qed

theorem sanitize_game_fields_witness:
  "distinct (map fst [(''_id'', DStr ''g1''), (''state'', DStr ''created''),
                      (''outcome'', DNum (Fin 250)), (''fair'', DObj [(''seed'', DStr ''s1'')])])
   \<and> rollSanitizeGame (DObj [(''_id'', DStr ''g1''), (''state'', DStr ''created''),
                             (''outcome'', DNum (Fin 250)), (''fair'', DObj [(''seed'', DStr ''s1'')])])
       = Inr (DObj [(''_id'', DStr ''g1''), (''state'', DStr ''created'')])
   \<and> distinct (map fst [(''_id'', DStr ''g1''), (''state'', DStr ''completed''),
                        (''outcome'', DNum (Fin 250)), (''fair'', DObj [(''seed'', DStr ''s1'')])])
   \<and> rollSanitizeGame (DObj [(''_id'', DStr ''g1''), (''state'', DStr ''completed''),
                             (''outcome'', DNum (Fin 250)), (''fair'', DObj [(''seed'', DStr ''s1'')])])
       = Inr (DObj [(''_id'', DStr ''g1''), (''state'', DStr ''completed''),
                    (''outcome'', DNum (Fin 250)), (''fair'', DObj [(''seed'', DStr ''s1'')])])"
proof -
  let ?open = "[(''_id'', DStr ''g1''), (''state'', DStr ''created''),
                (''outcome'', DNum (Fin 250)), (''fair'', DObj [(''seed'', DStr ''s1'')])]"
  let ?done = "[(''_id'', DStr ''g1''), (''state'', DStr ''completed''),
                (''outcome'', DNum (Fin 250)), (''fair'', DObj [(''seed'', DStr ''s1'')])]"
  have d1: "distinct (map fst ?open)" and d2: "distinct (map fst ?done)" by simp_all
  have r1: "rollSanitizeGame (DObj ?open)
            = Inr (DObj [(''_id'', DStr ''g1''), (''state'', DStr ''created'')])"
    by (simp add: rollSanitizeGame_def json_roundtrip_def get_prop_def read_prop_def
        delete_prop_def)
  show ?thesis
    using sanitize_game_fields [OF d1, of "DNum (Fin 250)" "DObj [(''seed'', DStr ''s1'')]"]
      sanitize_game_fields [OF d2, of "DNum (Fin 250)" "DObj [(''seed'', DStr ''s1'')]"] d1 d2 r1
    by (simp add: read_prop_def)
qed

lemma keys_replace:
  "map fst (map (\<lambda>kv. if fst kv = k then (k, v) else kv) kvs) = map fst kvs"
  by (induction kvs) auto

lemma map_of_replace:
  "map_of (map (\<lambda>kv. if fst kv = k then (k, v) else kv) kvs) j
   = (if j = k then (case map_of kvs k of None \<Rightarrow> None | Some _ \<Rightarrow> Some v)
      else map_of kvs j)"
  by (induction kvs) auto

lemma map_of_set_prop:
  "map_of (set_prop k v kvs) j = (if j = k then Some v else map_of kvs j)"
proof (cases "k \<in> fst ` set kvs")
  case True
  then have "map_of kvs k \<noteq> None" by (simp add: map_of_eq_None_iff)
  then obtain w where "map_of kvs k = Some w" by auto
  then show ?thesis using True by (simp add: set_prop_def map_of_replace)
next
  case False
  then have "map_of kvs k = None" by (simp add: map_of_eq_None_iff)
  then show ?thesis using False by (auto simp: set_prop_def map_add_def split: option.splits)
qed

lemma keys_set_prop: "fst ` set (set_prop k v kvs) = insert k (fst ` set kvs)"
proof (cases "k \<in> fst ` set kvs")
  case True
  have "fst ` set (map (\<lambda>kv. if fst kv = k then (k, v) else kv) kvs)
        = set (map fst (map (\<lambda>kv. if fst kv = k then (k, v) else kv) kvs))"
    by (simp only: set_map)
  also have "\<dots> = fst ` set kvs" by (simp only: keys_replace set_map)
  finally show ?thesis using True by (simp add: set_prop_def insert_absorb)
next
  case False
  then show ?thesis by (simp add: set_prop_def)
qed

lemma public_user_cases:
  "public_user u =
     (if nullish_doc u \<or> nullish_doc (read_prop u ''rakeback'') then Inl TypeError
      else Inr (DObj [(''_id'', read_prop u ''_id''),
                      (''roblox'', read_prop u ''roblox''),
                      (''username'', read_prop u ''username''),
                      (''avatar'', read_prop u ''avatar''),
                      (''rank'', read_prop u ''rank''),
                      (''level'', read_prop u ''level''),
                      (''rakeback'', read_prop (read_prop u ''rakeback'') ''name''),
                      (''stats'', read_prop u ''stats''),
                      (''createdAt'', read_prop u ''createdAt'')]))"
  by (simp add: public_user_def get_prop_def nullish_doc_def)

lemma sanitize_one_cases:
  "sanitize_one b =
     (if nullish_doc b \<or> nullish_doc (read_prop b ''user'')
         \<or> nullish_doc (read_prop (read_prop b ''user'') ''rakeback'')
      then Inl TypeError
      else Inr (DObj (set_prop ''user''
                  (DObj [(''_id'', read_prop (read_prop b ''user'') ''_id''),
                         (''roblox'', read_prop (read_prop b ''user'') ''roblox''),
                         (''username'', read_prop (read_prop b ''user'') ''username''),
                         (''avatar'', read_prop (read_prop b ''user'') ''avatar''),
                         (''rank'', read_prop (read_prop b ''user'') ''rank''),
                         (''level'', read_prop (read_prop b ''user'') ''level''),
                         (''rakeback'',
                            read_prop (read_prop (read_prop b ''user'') ''rakeback'') ''name''),
                         (''stats'', read_prop (read_prop b ''user'') ''stats''),
                         (''createdAt'', read_prop (read_prop b ''user'') ''createdAt'')])
                  (own_props b))))"
  by (simp add: sanitize_one_def get_prop_def public_user_cases nullish_doc_def)

lemma rollSanitizeBets_Inr:
  "rollSanitizeBets bets = Inr rs \<Longrightarrow> list_all2 (\<lambda>b r. sanitize_one b = Inr r) bets rs"
  by (induction bets arbitrary: rs) (auto split: sum.splits)

text \<open>
  C9, as stated: no element of the output contains a balance field, whatever the shape
  of the input bet. A bet that carries a \<open>balance\<close> property of its own keeps it: the
  spread copies every property of the bet, and only \<open>user\<close> is replaced.
\<close>

theorem sanitized_bet_keeps_own_balance:
  "rollSanitizeBets
     [DObj [(''amount'', DNum (Fin 100)), (''balance'', DNum (Fin 5)),
            (''user'', DObj [(''_id'', DStr ''u1''), (''balance'', DNum (Fin 1000)),
                             (''rakeback'', DObj [(''name'', DStr ''gold'')])])]]
   = Inr [DObj [(''amount'', DNum (Fin 100)), (''balance'', DNum (Fin 5)),
                (''user'', DObj [(''_id'', DStr ''u1''), (''roblox'', DUndefined),
                                 (''username'', DUndefined), (''avatar'', DUndefined),
                                 (''rank'', DUndefined), (''level'', DUndefined),
                                 (''rakeback'', DStr ''gold''), (''stats'', DUndefined),
                                 (''createdAt'', DUndefined)])]]
   \<and> has_prop (DObj [(''amount'', DNum (Fin 100)), (''balance'', DNum (Fin 5)),
                (''user'', DObj [(''_id'', DStr ''u1''), (''roblox'', DUndefined),
                                 (''username'', DUndefined), (''avatar'', DUndefined),
                                 (''rank'', DUndefined), (''level'', DUndefined),
                                 (''rakeback'', DStr ''gold''), (''stats'', DUndefined),
                                 (''createdAt'', DUndefined)])]) ''balance''"
  by (simp add: sanitize_one_def get_prop_def read_prop_def public_user_def own_props_def
      set_prop_def has_prop_def)

text \<open>
  C9, amended: \<open>rollSanitizeBets\<close> throws, and then a TypeError, exactly when some
  bet, its user or the user's rakeback is \<open>undefined\<close> or \<open>null\<close>; otherwise it
  returns, also when the rakeback is a string or a number (its name is then
  \<open>undefined\<close>). When it returns, the \<open>user\<close> field of each element of the output is
  the nine public fields \<open>_id\<close>, \<open>roblox\<close>, \<open>username\<close>, \<open>avatar\<close>, \<open>rank\<close>,
  \<open>level\<close>, \<open>rakeback\<close> (the name of the tier), \<open>stats\<close> and \<open>createdAt\<close> of the
  bet's user, so it has no balance field, and every other property of the bet is
  carried over unchanged.
\<close>

theorem sanitized_bet_user_is_public_fields:
  "(rollSanitizeBets bets = Inr rs \<longrightarrow>
      length rs = length bets
      \<and> (\<forall>i < length bets.
            read_prop (rs ! i) ''user''
              = DObj [(''_id'', read_prop (read_prop (bets ! i) ''user'') ''_id''),
                      (''roblox'', read_prop (read_prop (bets ! i) ''user'') ''roblox''),
                      (''username'', read_prop (read_prop (bets ! i) ''user'') ''username''),
                      (''avatar'', read_prop (read_prop (bets ! i) ''user'') ''avatar''),
                      (''rank'', read_prop (read_prop (bets ! i) ''user'') ''rank''),
                      (''level'', read_prop (read_prop (bets ! i) ''user'') ''level''),
                      (''rakeback'',
                         read_prop (read_prop (read_prop (bets ! i) ''user'') ''rakeback'') ''name''),
                      (''stats'', read_prop (read_prop (bets ! i) ''user'') ''stats''),
                      (''createdAt'', read_prop (read_prop (bets ! i) ''user'') ''createdAt'')]
            \<and> \<not> has_prop (read_prop (rs ! i) ''user'') ''balance''
            \<and> (\<forall>k. k \<noteq> ''user'' \<longrightarrow>
                  read_prop (rs ! i) k = read_prop (bets ! i) k
                  \<and> has_prop (rs ! i) k = has_prop (bets ! i) k)))
   \<and> (isl (rollSanitizeBets bets) \<longleftrightarrow>
        (\<exists>b \<in> set bets. nullish_doc b \<or> nullish_doc (read_prop b ''user'')
            \<or> nullish_doc (read_prop (read_prop b ''user'') ''rakeback'')))
   \<and> (\<forall>e. rollSanitizeBets bets = Inl e \<longrightarrow> e = TypeError)"
proof (intro conjI impI)
  assume ok: "rollSanitizeBets bets = Inr rs"
  then have l2: "list_all2 (\<lambda>b r. sanitize_one b = Inr r) bets rs"
    by (rule rollSanitizeBets_Inr)
  then show "length rs = length bets" by (simp add: list_all2_lengthD)
  show "\<forall>i < length bets.
            read_prop (rs ! i) ''user''
              = DObj [(''_id'', read_prop (read_prop (bets ! i) ''user'') ''_id''),
                      (''roblox'', read_prop (read_prop (bets ! i) ''user'') ''roblox''),
                      (''username'', read_prop (read_prop (bets ! i) ''user'') ''username''),
                      (''avatar'', read_prop (read_prop (bets ! i) ''user'') ''avatar''),
                      (''rank'', read_prop (read_prop (bets ! i) ''user'') ''rank''),
                      (''level'', read_prop (read_prop (bets ! i) ''user'') ''level''),
                      (''rakeback'',
                         read_prop (read_prop (read_prop (bets ! i) ''user'') ''rakeback'') ''name''),
                      (''stats'', read_prop (read_prop (bets ! i) ''user'') ''stats''),
                      (''createdAt'', read_prop (read_prop (bets ! i) ''user'') ''createdAt'')]
            \<and> \<not> has_prop (read_prop (rs ! i) ''user'') ''balance''
            \<and> (\<forall>k. k \<noteq> ''user'' \<longrightarrow>
                  read_prop (rs ! i) k = read_prop (bets ! i) k
                  \<and> has_prop (rs ! i) k = has_prop (bets ! i) k)"
  proof (intro allI impI)
    fix i assume i: "i < length bets"
    define b where "b = bets ! i"
    define pu where "pu = DObj [(''_id'', read_prop (read_prop b ''user'') ''_id''),
                      (''roblox'', read_prop (read_prop b ''user'') ''roblox''),
                      (''username'', read_prop (read_prop b ''user'') ''username''),
                      (''avatar'', read_prop (read_prop b ''user'') ''avatar''),
                      (''rank'', read_prop (read_prop b ''user'') ''rank''),
                      (''level'', read_prop (read_prop b ''user'') ''level''),
                      (''rakeback'',
                         read_prop (read_prop (read_prop b ''user'') ''rakeback'') ''name''),
                      (''stats'', read_prop (read_prop b ''user'') ''stats''),
                      (''createdAt'', read_prop (read_prop b ''user'') ''createdAt'')]"
    have s: "sanitize_one b = Inr (rs ! i)"
      using l2 i by (simp add: list_all2_conv_all_nth b_def)
    then have nb: "\<not> nullish_doc b"
      by (auto simp: sanitize_one_cases split: if_splits)
    have r: "rs ! i = DObj (set_prop ''user'' pu (own_props b))"
      using s by (auto simp: sanitize_one_cases pu_def split: if_splits)
    have u: "read_prop (rs ! i) ''user'' = pu"
      by (simp add: r read_prop_def map_of_set_prop)
    have nbal: "\<not> has_prop pu ''balance''"
      by (simp add: pu_def has_prop_def)
    have others: "read_prop (rs ! i) k = read_prop b k \<and> has_prop (rs ! i) k = has_prop b k"
      if "k \<noteq> ''user''" for k
      using that
      by (cases b) (auto simp: r read_prop_def has_prop_def own_props_def map_of_set_prop
          keys_set_prop)
    show "read_prop (rs ! i) ''user''
              = DObj [(''_id'', read_prop (read_prop (bets ! i) ''user'') ''_id''),
                      (''roblox'', read_prop (read_prop (bets ! i) ''user'') ''roblox''),
                      (''username'', read_prop (read_prop (bets ! i) ''user'') ''username''),
                      (''avatar'', read_prop (read_prop (bets ! i) ''user'') ''avatar''),
                      (''rank'', read_prop (read_prop (bets ! i) ''user'') ''rank''),
                      (''level'', read_prop (read_prop (bets ! i) ''user'') ''level''),
                      (''rakeback'',
                         read_prop (read_prop (read_prop (bets ! i) ''user'') ''rakeback'') ''name''),
                      (''stats'', read_prop (read_prop (bets ! i) ''user'') ''stats''),
                      (''createdAt'', read_prop (read_prop (bets ! i) ''user'') ''createdAt'')]
            \<and> \<not> has_prop (read_prop (rs ! i) ''user'') ''balance''
            \<and> (\<forall>k. k \<noteq> ''user'' \<longrightarrow>
                  read_prop (rs ! i) k = read_prop (bets ! i) k
                  \<and> has_prop (rs ! i) k = has_prop (bets ! i) k)"
      using u nbal others unfolding pu_def b_def by simp
  qed
next
  show "isl (rollSanitizeBets bets) \<longleftrightarrow>
        (\<exists>b \<in> set bets. nullish_doc b \<or> nullish_doc (read_prop b ''user'')
            \<or> nullish_doc (read_prop (read_prop b ''user'') ''rakeback''))"
    by (induction bets) (auto simp: sanitize_one_cases split: sum.splits if_splits)
next
  show "\<forall>e. rollSanitizeBets bets = Inl e \<longrightarrow> e = TypeError"
    by (induction bets) (auto simp: sanitize_one_cases split: sum.splits if_splits)
qed

theorem sanitized_bet_user_is_public_fields_witness:
  "rollSanitizeBets
     [DObj [(''amount'', DNum (Fin 100)), (''multiplier'', DNum (Fin 200)),
            (''user'', DObj [(''_id'', DStr ''u1''), (''username'', DStr ''ann''),
                             (''balance'', DNum (Fin 1000)),
                             (''rakeback'', DObj [(''name'', DStr ''gold'')])])]]
   = Inr [DObj [(''amount'', DNum (Fin 100)), (''multiplier'', DNum (Fin 200)),
                (''user'', DObj [(''_id'', DStr ''u1''), (''roblox'', DUndefined),
                                 (''username'', DStr ''ann''), (''avatar'', DUndefined),
                                 (''rank'', DUndefined), (''level'', DUndefined),
                                 (''rakeback'', DStr ''gold''), (''stats'', DUndefined),
                                 (''createdAt'', DUndefined)])]]
   \<and> \<not> has_prop
         (read_prop
            (DObj [(''amount'', DNum (Fin 100)), (''multiplier'', DNum (Fin 200)),
                (''user'', DObj [(''_id'', DStr ''u1''), (''roblox'', DUndefined),
                                 (''username'', DStr ''ann''), (''avatar'', DUndefined),
                                 (''rank'', DUndefined), (''level'', DUndefined),
                                 (''rakeback'', DStr ''gold''), (''stats'', DUndefined),
                                 (''createdAt'', DUndefined)])]) ''user'') ''balance''
   \<and> rollSanitizeBets [DObj [(''amount'', DNum (Fin 100)), (''user'', DNull)]]
       = Inl TypeError
   \<and> rollSanitizeBets
        [DObj [(''user'', DObj [(''_id'', DStr ''u1''), (''rakeback'', DStr ''gold'')])]]
       = Inr [DObj [(''user'', DObj [(''_id'', DStr ''u1''), (''roblox'', DUndefined),
                                    (''username'', DUndefined), (''avatar'', DUndefined),
                                    (''rank'', DUndefined), (''level'', DUndefined),
                                    (''rakeback'', DUndefined), (''stats'', DUndefined),
                                    (''createdAt'', DUndefined)])]]"
proof -
  let ?b = "DObj [(''amount'', DNum (Fin 100)), (''multiplier'', DNum (Fin 200)),
            (''user'', DObj [(''_id'', DStr ''u1''), (''username'', DStr ''ann''),
                             (''balance'', DNum (Fin 1000)),
                             (''rakeback'', DObj [(''name'', DStr ''gold'')])])]"
  let ?r = "DObj [(''amount'', DNum (Fin 100)), (''multiplier'', DNum (Fin 200)),
                (''user'', DObj [(''_id'', DStr ''u1''), (''roblox'', DUndefined),
                                 (''username'', DStr ''ann''), (''avatar'', DUndefined),
                                 (''rank'', DUndefined), (''level'', DUndefined),
                                 (''rakeback'', DStr ''gold''), (''stats'', DUndefined),
                                 (''createdAt'', DUndefined)])]"
  have e: "rollSanitizeBets [?b] = Inr [?r]"
    by (simp add: sanitize_one_def get_prop_def read_prop_def public_user_def own_props_def
        set_prop_def)
  have t: "rollSanitizeBets [DObj [(''amount'', DNum (Fin 100)), (''user'', DNull)]]
           = Inl TypeError"
    by (simp add: sanitize_one_def get_prop_def read_prop_def public_user_def)
  have g: "rollSanitizeBets
        [DObj [(''user'', DObj [(''_id'', DStr ''u1''), (''rakeback'', DStr ''gold'')])]]
       = Inr [DObj [(''user'', DObj [(''_id'', DStr ''u1''), (''roblox'', DUndefined),
                                    (''username'', DUndefined), (''avatar'', DUndefined),
                                    (''rank'', DUndefined), (''level'', DUndefined),
                                    (''rakeback'', DUndefined), (''stats'', DUndefined),
                                    (''createdAt'', DUndefined)])]]"
    by (simp add: sanitize_one_def get_prop_def read_prop_def public_user_def own_props_def
        set_prop_def)
  show ?thesis
    using sanitized_bet_user_is_public_fields [of "[?b]" "[?r]"] e t g
      sanitized_bet_user_is_public_fields
        [of "[DObj [(''amount'', DNum (Fin 100)), (''user'', DNull)]]" "[]"]
    by (simp add: read_prop_def nullish_doc_def)
qed

end
